theory Spec2Isabelle
  imports Complex_Main "HOL-Library.Word" "HOL-Library.Sublist"
begin

section \<open>Values of the host environment\<close>

text \<open>
  The source is TypeScript (\<^verbatim>\<open>src/io.ts\<close> and \<^verbatim>\<open>src/common.ts\<close>). Its
  \<^verbatim>\<open>number\<close>s are modelled as unbounded integers: every number the readers handle is a
  byte position, a byte count or a header field. A \<^verbatim>\<open>Blob\<close> is the list of its bytes.
\<close>

type_synonym byte = "8 word"
type_synonym Blob = "byte list"

text \<open>
  Values that the code throws or catches. \<open>ProgressEvent t tgt\<close> is an instance of the
  host's \<^verbatim>\<open>ProgressEvent\<close> with \<^verbatim>\<open>type\<close> \<open>t\<close> and \<^verbatim>\<open>target\<close> \<open>tgt\<close> (\<open>None\<close> is
  \<^verbatim>\<open>null\<close>). A target is represented by what reading its \<^verbatim>\<open>error\<close> property gives,
  which is \<open>Undefined\<close> for an object without that property.
\<close>

datatype thrown =
    Undefined
  | RangeError
  | TypeError
  | TimeoutError int
  | Error string
  | ProgressEvent string "EventTarget option"
and EventTarget =
    EventTarget thrown

fun target_error :: "EventTarget \<Rightarrow> thrown" where
  "target_error (EventTarget x) = x"

text \<open>The options object handed to the library, as its properties and their values.\<close>

type_synonym EntryGetDataOptions = "(string \<times> string) list"

text \<open>
  What a function does to the outside is kept in a log, in order: a slice taken from the
  container blob, and a call of the archive library's \<^verbatim>\<open>getData\<close> with the MIME string of
  the \<^verbatim>\<open>BlobWriter\<close> and the options it was given.
\<close>

datatype event =
    BlobSlice int int
  | GetData "string option" "EntryGetDataOptions option"

type_synonym 'a result = "thrown + 'a"
type_synonym 'a io = "event list \<times> 'a result"

definition bindE :: "'a result \<Rightarrow> ('a \<Rightarrow> 'b result) \<Rightarrow> 'b result" where
  "bindE m f = (case m of Inl e \<Rightarrow> Inl e | Inr x \<Rightarrow> f x)"

definition bindIO :: "'a io \<Rightarrow> ('a \<Rightarrow> 'b io) \<Rightarrow> 'b io" where
  "bindIO m f =
     (case m of
        (l, Inl e) \<Rightarrow> (l, Inl e)
      | (l, Inr x) \<Rightarrow> (case f x of (l', r) \<Rightarrow> (l @ l', r)))"

subsection \<open>Blob.slice and DataView\<close>

text \<open>
  \<^verbatim>\<open>Blob.slice(start, end)\<close> of the File API: a negative bound counts from the end of the
  blob, both bounds are clamped to the blob, and an end before the start gives the empty
  blob. \<open>slice_range\<close> is the pair of positions the slice spans in the blob.
\<close>

definition slice_range :: "Blob \<Rightarrow> int \<Rightarrow> int \<Rightarrow> nat \<times> nat" where
  "slice_range b start stop =
     (let sz = int (length b);
          relativeStart = (if start < 0 then max (sz + start) 0 else min start sz);
          relativeEnd = (if stop < 0 then max (sz + stop) 0 else min stop sz);
          span = max (relativeEnd - relativeStart) 0
      in (nat relativeStart, nat (relativeStart + span)))"

definition blob_slice :: "Blob \<Rightarrow> int \<Rightarrow> int \<Rightarrow> Blob" where
  "blob_slice b start stop =
     (case slice_range b start stop of (lo, hi) \<Rightarrow> take (hi - lo) (drop lo b))"

text \<open>The bytes of a blob at the positions \<open>lo \<le> p < hi\<close>, those that exist.\<close>

definition bytes_in :: "Blob \<Rightarrow> nat \<Rightarrow> nat \<Rightarrow> Blob" where
  "bytes_in b lo hi = drop lo (take hi b)"

text \<open>The value of a byte sequence read as a little-endian unsigned number.\<close>

fun le_value :: "byte list \<Rightarrow> nat" where
  "le_value [] = 0"
| "le_value (x # xs) = unat x + 256 * le_value xs"

text \<open>
  \<^verbatim>\<open>DataView.getUint16(byteOffset, true)\<close> and \<^verbatim>\<open>getUint32(byteOffset, true)\<close> on a view
  of the whole buffer: a read that does not fit in the buffer throws a RangeError.
\<close>

definition getUint16 :: "Blob \<Rightarrow> nat \<Rightarrow> int result" where
  "getUint16 view byteOffset =
     (if byteOffset + 2 \<le> length view
      then Inr (int (le_value (take 2 (drop byteOffset view))))
      else Inl RangeError)"

definition getUint32 :: "Blob \<Rightarrow> nat \<Rightarrow> int result" where
  "getUint32 view byteOffset =
     (if byteOffset + 4 \<le> length view
      then Inr (int (le_value (take 4 (drop byteOffset view))))
      else Inl RangeError)"

section \<open>common.ts: entry metadata\<close>

definition ZIP_ENTRY_HEADER_BEGIN_LENGTH :: int where
  "ZIP_ENTRY_HEADER_BEGIN_LENGTH = 30"

record EntryMetadata =
  offset :: int
  compressionMethod :: int
  compressedSize :: int
  uncompressedSize :: int
  headerSize :: int

text \<open>
  The entry descriptor of the archive library: its \<^verbatim>\<open>offset\<close>, and \<^verbatim>\<open>getData\<close>, which is
  \<open>None\<close> when the descriptor has no such method and otherwise maps the writer's MIME
  string and the options to the decoded blob or to the value the library throws.
\<close>

record Entry =
  entry_offset :: int
  entry_getData :: "(string option \<Rightarrow> EntryGetDataOptions option \<Rightarrow> Blob result) option"

definition getEntryMetadata :: "Blob \<Rightarrow> Entry \<Rightarrow> EntryMetadata io" where
  "getEntryMetadata blob entry =
     (let offs = entry_offset entry;
          headerBeginRaw = blob_slice blob offs (offs + ZIP_ENTRY_HEADER_BEGIN_LENGTH)
      in ([BlobSlice offs (offs + ZIP_ENTRY_HEADER_BEGIN_LENGTH)],
          bindE (getUint16 headerBeginRaw 8) (\<lambda>compressionMethod.
          bindE (getUint32 headerBeginRaw 18) (\<lambda>compressedSize.
          bindE (getUint32 headerBeginRaw 22) (\<lambda>uncompressedSize.
          bindE (getUint16 headerBeginRaw 26) (\<lambda>fileNameLength.
          bindE (getUint16 headerBeginRaw 28) (\<lambda>extraFieldLength.
            Inr \<lparr> offset = offs,
                  compressionMethod = compressionMethod,
                  compressedSize = compressedSize,
                  uncompressedSize = uncompressedSize,
                  headerSize = ZIP_ENTRY_HEADER_BEGIN_LENGTH + fileNameLength
                               + extraFieldLength \<rparr>)))))))"

text \<open>
  \<^verbatim>\<open>zipGetData\<close>: the call of \<^verbatim>\<open>entry.getData\<close> inside \<^verbatim>\<open>try\<close>, and the \<^verbatim>\<open>catch\<close>
  that unwraps a ProgressEvent. Calling a missing \<^verbatim>\<open>getData\<close> throws a TypeError inside
  the \<^verbatim>\<open>try\<close>.
\<close>

definition call_getData ::
  "Entry \<Rightarrow> string option \<Rightarrow> EntryGetDataOptions option \<Rightarrow> Blob io" where
  "call_getData entry mime opts =
     (case entry_getData entry of
        None \<Rightarrow> ([], Inl TypeError)
      | Some g \<Rightarrow> ([GetData mime opts], g mime opts))"

fun unwrap_caught :: "thrown \<Rightarrow> thrown" where
  "unwrap_caught (ProgressEvent t (Some tgt)) =
     (if t = ''error'' then target_error tgt else ProgressEvent t (Some tgt))"
| "unwrap_caught e = e"

definition zipGetData ::
  "Entry \<Rightarrow> string option \<Rightarrow> EntryGetDataOptions option \<Rightarrow> Blob io" where
  "zipGetData entry mime opts =
     (case call_getData entry mime opts of
        (l, Inr v) \<Rightarrow> (l, Inr v)
      | (l, Inl e) \<Rightarrow> (l, Inl (unwrap_caught e)))"

section \<open>io.ts: the readers\<close>

definition parseIndex :: "int \<Rightarrow> int \<Rightarrow> int" where
  "parseIndex index sz = (if index < 0 then max (index + sz) 0 else min index sz)"

record BlobEntryReaderImpl =
  impl_blob :: Blob
  impl_offset :: int
  impl_size :: int

definition new_BlobEntryReaderImpl :: "Blob \<Rightarrow> EntryMetadata \<Rightarrow> BlobEntryReaderImpl" where
  "new_BlobEntryReaderImpl blob entryMetadata =
     \<lparr> impl_blob = blob,
       impl_offset = offset entryMetadata + headerSize entryMetadata,
       impl_size = compressedSize entryMetadata \<rparr>"

text \<open>The two bounds that \<^verbatim>\<open>readUint8Array\<close> passes to \<^verbatim>\<open>Blob.slice\<close>.\<close>

definition impl_bounds :: "BlobEntryReaderImpl \<Rightarrow> int \<Rightarrow> int \<Rightarrow> int \<times> int" where
  "impl_bounds r index len =
     (parseIndex index (impl_size r) + impl_offset r,
      parseIndex (index + len) (impl_size r) + impl_offset r)"

definition impl_readUint8Array :: "BlobEntryReaderImpl \<Rightarrow> int \<Rightarrow> int \<Rightarrow> Blob io" where
  "impl_readUint8Array r index len =
     (case impl_bounds r index len of
        (start, stop) \<Rightarrow> ([BlobSlice start stop], Inr (blob_slice (impl_blob r) start stop)))"

text \<open>
  Modelled from the spec: \<^verbatim>\<open>BlobReader\<close> is a class of the archive library, the reader
  over the decoded buffer, with the same clamping of \<open>index\<close> and \<open>index + length\<close> as
  the stored reader and no translation. It reads its own blob and leaves no event on the
  container.
\<close>

definition BlobReader_readUint8Array :: "Blob \<Rightarrow> int \<Rightarrow> int \<Rightarrow> Blob io" where
  "BlobReader_readUint8Array b index len =
     ([], Inr (blob_slice b (parseIndex index (int (length b)))
                            (parseIndex (index + len) (int (length b)))))"

text \<open>The two classes a \<^verbatim>\<open>Reader<Blob>\<close> can be here, with their \<^verbatim>\<open>size\<close> and method.\<close>

datatype Reader =
    StoredReader BlobEntryReaderImpl
  | BlobReader Blob

fun Reader_size :: "Reader \<Rightarrow> int" where
  "Reader_size (StoredReader r) = impl_size r"
| "Reader_size (BlobReader b) = int (length b)"

fun Reader_readUint8Array :: "Reader \<Rightarrow> int \<Rightarrow> int \<Rightarrow> Blob io" where
  "Reader_readUint8Array (StoredReader r) index len = impl_readUint8Array r index len"
| "Reader_readUint8Array (BlobReader b) index len = BlobReader_readUint8Array b index len"

text \<open>
  \<^verbatim>\<open>BlobEntryReader\<close>: \<open>this_reader\<close> is \<open>None\<close> while the field is \<^verbatim>\<open>undefined\<close>, and
  \<open>this_size\<close> starts at the 0 of the library's base class.
\<close>

record BlobEntryReader =
  this_blob :: Blob
  this_entry :: Entry
  this_mimeString :: "string option"
  this_options :: "EntryGetDataOptions option"
  this_reader :: "Reader option"
  this_size :: int

definition new_BlobEntryReader ::
  "Blob \<Rightarrow> Entry \<Rightarrow> string option \<Rightarrow> EntryGetDataOptions option \<Rightarrow> BlobEntryReader" where
  "new_BlobEntryReader blob entry mimeString opts =
     \<lparr> this_blob = blob, this_entry = entry, this_mimeString = mimeString,
       this_options = opts, this_reader = None, this_size = 0 \<rparr>"

text \<open>
  \<open>set_reader\<close> is the two assignments that both branches of \<^verbatim>\<open>init\<close> end with,
  \<^verbatim>\<open>this.reader = r\<close> and \<^verbatim>\<open>this.size = this.reader.size\<close>. \<^verbatim>\<open>init\<close> returns the
  object as it is after them; when it throws, nothing has been assigned.
\<close>

definition set_reader :: "BlobEntryReader \<Rightarrow> Reader \<Rightarrow> BlobEntryReader io" where
  "set_reader this r = ([], Inr (this\<lparr> this_reader := Some r, this_size := Reader_size r \<rparr>))"

definition init :: "BlobEntryReader \<Rightarrow> BlobEntryReader io" where
  "init this =
     bindIO (getEntryMetadata (this_blob this) (this_entry this)) (\<lambda>entryMetadata.
       if compressionMethod entryMetadata \<noteq> 0
       then bindIO (zipGetData (this_entry this) (this_mimeString this) (this_options this))
              (\<lambda>entryBlob. set_reader this (BlobReader entryBlob))
       else set_reader this
              (StoredReader (new_BlobEntryReaderImpl (this_blob this) entryMetadata)))"

text \<open>Calling a method of the \<^verbatim>\<open>undefined\<close> reader throws a TypeError.\<close>

definition readUint8Array :: "BlobEntryReader \<Rightarrow> int \<Rightarrow> int \<Rightarrow> Blob io" where
  "readUint8Array this index len =
     (case this_reader this of
        None \<Rightarrow> ([], Inl TypeError)
      | Some r \<Rightarrow> Reader_readUint8Array r index len)"

subsection \<open>A small archive\<close>

text \<open>
  Two bytes of padding, the local file header of a stored entry named \<open>a\<close> with three
  bytes of data, the data, and one byte that follows the entry.
\<close>

definition example_header :: Blob where
  "example_header =
     [0x50, 0x4B, 0x03, 0x04,  0x14, 0x00,  0x00, 0x00,  0x00, 0x00,
      0x00, 0x00, 0x00, 0x00,  0x11, 0x22, 0x33, 0x44,
      0x03, 0x00, 0x00, 0x00,  0x03, 0x00, 0x00, 0x00,  0x01, 0x00,  0x00, 0x00]"

definition example_container :: Blob where
  "example_container = [0xEE, 0xEE] @ example_header @ [0x61] @ [0xAA, 0xBB, 0xCC] @ [0xFF]"

definition example_entry :: Entry where
  "example_entry = \<lparr> entry_offset = 2, entry_getData = None \<rparr>"

definition example_reader :: BlobEntryReaderImpl where
  "example_reader = \<lparr> impl_blob = example_container, impl_offset = 33, impl_size = 3 \<rparr>"

text \<open>The same entry with compression method 8, and a library that decodes it.\<close>

definition deflated_container :: Blob where
  "deflated_container = (example_container) [10 := 0x08]"

definition deflated_entry :: Entry where
  "deflated_entry =
     \<lparr> entry_offset = 2, entry_getData = Some (\<lambda>mime opts. Inr [0x01, 0x02, 0x03, 0x04]) \<rparr>"

text \<open>
  An entry whose \<^verbatim>\<open>getData\<close> fails with an error event whose target has no
  \<^verbatim>\<open>error\<close> property, as the event of a failed request has.
\<close>

definition event_without_error :: thrown where
  "event_without_error = ProgressEvent ''error'' (Some (EventTarget Undefined))"

definition failing_getData :: "string option \<Rightarrow> EntryGetDataOptions option \<Rightarrow> Blob result" where
  "failing_getData mime opts = Inl event_without_error"

definition failing_entry :: Entry where
  "failing_entry = \<lparr> entry_offset = 2, entry_getData = Some failing_getData \<rparr>"

section \<open>common.ts: runWithTimeout\<close>

text \<open>
  The host runs one callback at a time. Two things can happen after \<^verbatim>\<open>runWithTimeout\<close>
  has returned its promise: the timer fires and its callback runs, or the wrapped promise
  settles and its reactions run (\<^verbatim>\<open>then\<close> or \<^verbatim>\<open>catch\<close>, then \<^verbatim>\<open>finally\<close>; they are
  microtasks, so no timer callback runs between them). A schedule is the list of these
  happenings in the order the host takes them; one that cannot happen any more (the timer
  was cleared or has fired, the promise has settled) changes nothing.

  \<open>settle_calls\<close> lists the calls of \<^verbatim>\<open>resolve\<close> (\<open>Inr\<close>) and \<^verbatim>\<open>reject\<close> (\<open>Inl\<close>) of the
  returned promise, in order; the promise takes the first.
\<close>

datatype 'a rt_event =
    TimerFires
  | PromiseSettles "'a result"

record 'a rt_state =
  timedOut :: bool
  tid_pending :: bool
  promise_pending :: bool
  settle_calls :: "'a result list"

definition rt_start :: "'a rt_state" where
  "rt_start =
     \<lparr> timedOut = False, tid_pending = True, promise_pending = True, settle_calls = [] \<rparr>"

definition timeout_callback :: "int \<Rightarrow> 'a rt_state \<Rightarrow> 'a rt_state" where
  "timeout_callback timeout s =
     s\<lparr> timedOut := True, settle_calls := settle_calls s @ [Inl (TimeoutError timeout)] \<rparr>"

definition then_handler :: "'a \<Rightarrow> 'a rt_state \<Rightarrow> 'a rt_state" where
  "then_handler val s =
     (if \<not> timedOut s then s\<lparr> settle_calls := settle_calls s @ [Inr val] \<rparr> else s)"

definition catch_handler :: "thrown \<Rightarrow> 'a rt_state \<Rightarrow> 'a rt_state" where
  "catch_handler err s =
     (if \<not> timedOut s then s\<lparr> settle_calls := settle_calls s @ [Inl err] \<rparr> else s)"

definition finally_handler :: "'a rt_state \<Rightarrow> 'a rt_state" where
  "finally_handler s = (if \<not> timedOut s then s\<lparr> tid_pending := False \<rparr> else s)"

definition rt_step :: "int \<Rightarrow> 'a rt_state \<Rightarrow> 'a rt_event \<Rightarrow> 'a rt_state" where
  "rt_step timeout s ev =
     (case ev of
        TimerFires \<Rightarrow>
          if tid_pending s then timeout_callback timeout (s\<lparr> tid_pending := False \<rparr>) else s
      | PromiseSettles outcome \<Rightarrow>
          if promise_pending s
          then finally_handler
                 (case outcome of
                    Inr val \<Rightarrow> then_handler val (s\<lparr> promise_pending := False \<rparr>)
                  | Inl err \<Rightarrow> catch_handler err (s\<lparr> promise_pending := False \<rparr>))
          else s)"

definition runWithTimeout :: "int \<Rightarrow> 'a rt_event list \<Rightarrow> 'a rt_state" where
  "runWithTimeout timeout schedule = foldl (rt_step timeout) rt_start schedule"

definition returned_promise :: "'a rt_state \<Rightarrow> 'a result option" where
  "returned_promise s = (case settle_calls s of [] \<Rightarrow> None | c # _ \<Rightarrow> Some c)"

section \<open>common.ts: runWithTimedProgress\<close>

text \<open>
  The third argument of a call of \<^verbatim>\<open>onProgress\<close>: the literal \<^verbatim>\<open>0.0\<close>, the literal
  \<^verbatim>\<open>1.0\<close>, or \<^verbatim>\<open>(now - startTime) / duration\<close>, kept as the pair of the difference and the
  duration. \<open>fraction_value\<close> is the exact quotient, which the code rounds to a double; a
  zero duration gives no rational value.
\<close>

datatype fraction =
    Lit0
  | Lit1
  | Ratio int int

fun fraction_value :: "fraction \<Rightarrow> rat option" where
  "fraction_value Lit0 = Some 0"
| "fraction_value Lit1 = Some 1"
| "fraction_value (Ratio e d) = (if d = 0 then None else Some (of_int e / of_int d))"

text \<open>
  After the synchronous start of \<^verbatim>\<open>runWithTimedProgress\<close> two things can happen: an
  animation frame arrives and the loop goes on after \<^verbatim>\<open>await waitForFrame()\<close>, or
  \<^verbatim>\<open>workPromise\<close> settles. \<open>Frame t\<close> carries what \<^verbatim>\<open>new Date().getTime()\<close> returns if the
  loop reads the clock in that frame. \<open>tp_phase\<close> is the \<^verbatim>\<open>await\<close> the function body is
  suspended at, or how it ended.
\<close>

datatype 'a tp_event =
    Frame int
  | WorkSettles "'a result"

datatype tp_phase =
    AwaitRace
  | AwaitProgress
  | AwaitWork
  | Returned
  | Threw thrown

record 'a tp_state =
  tp_stop :: bool
  tp_now :: int
  progress_done :: bool
  work_state :: "'a result option"
  phase :: tp_phase
  reported :: "fraction list"

text \<open>
  The state at the first suspension: \<open>startTime\<close> has been read, \<^verbatim>\<open>0.0\<close> reported, and the
  loop body has run once with the clock reading \<open>now\<close>.
\<close>

definition tp_start :: "int \<Rightarrow> int \<Rightarrow> int \<Rightarrow> 'a tp_state" where
  "tp_start startTime now duration =
     \<lparr> tp_stop = False, tp_now = now, progress_done = False, work_state = None,
       phase = AwaitRace, reported = [Lit0, Ratio (now - startTime) duration] \<rparr>"

definition await_work :: "'a tp_state \<Rightarrow> 'a tp_state" where
  "await_work s =
     (case work_state s of
        None \<Rightarrow> s\<lparr> phase := AwaitWork \<rparr>
      | Some (Inr v) \<Rightarrow> s\<lparr> phase := Returned, reported := reported s @ [Lit1] \<rparr>
      | Some (Inl e) \<Rightarrow> s\<lparr> phase := Threw e \<rparr>)"

definition await_progress :: "'a tp_state \<Rightarrow> 'a tp_state" where
  "await_progress s = (if progress_done s then await_work s else s\<lparr> phase := AwaitProgress \<rparr>)"

definition await_race :: "'a tp_state \<Rightarrow> 'a tp_state" where
  "await_race s =
     (if progress_done s then await_progress (s\<lparr> tp_stop := True \<rparr>)
      else case work_state s of
             None \<Rightarrow> s
           | Some (Inr v) \<Rightarrow> await_progress (s\<lparr> tp_stop := True \<rparr>)
           | Some (Inl e) \<Rightarrow> s\<lparr> phase := Threw e \<rparr>)"

definition resume_main :: "'a tp_state \<Rightarrow> 'a tp_state" where
  "resume_main s =
     (case phase s of
        AwaitRace \<Rightarrow> await_race s
      | AwaitProgress \<Rightarrow> await_progress s
      | AwaitWork \<Rightarrow> await_work s
      | Returned \<Rightarrow> s
      | Threw e \<Rightarrow> s)"

text \<open>The loop after a frame: the \<^verbatim>\<open>while\<close> test, then either the body again or the end.\<close>

definition loop_resume :: "int \<Rightarrow> int \<Rightarrow> int \<Rightarrow> 'a tp_state \<Rightarrow> 'a tp_state" where
  "loop_resume startTime duration t s =
     (let targetTime = startTime + duration
      in if \<not> tp_stop s \<and> tp_now s < targetTime
         then s\<lparr> tp_now := t, reported := reported s @ [Ratio (t - startTime) duration] \<rparr>
         else s\<lparr> progress_done := True \<rparr>)"

definition tp_step :: "int \<Rightarrow> int \<Rightarrow> 'a tp_state \<Rightarrow> 'a tp_event \<Rightarrow> 'a tp_state" where
  "tp_step startTime duration s ev =
     (case ev of
        Frame t \<Rightarrow>
          if progress_done s then s else resume_main (loop_resume startTime duration t s)
      | WorkSettles outcome \<Rightarrow>
          if work_state s \<noteq> None then s else resume_main (s\<lparr> work_state := Some outcome \<rparr>))"

definition runWithTimedProgress ::
  "int \<Rightarrow> int \<Rightarrow> int \<Rightarrow> 'a tp_event list \<Rightarrow> 'a tp_state" where
  "runWithTimedProgress startTime now duration schedule =
     foldl (tp_step startTime duration) (tp_start startTime now duration) schedule"

text \<open>The clock readings a schedule offers, and the synthetic fractions of a report list.\<close>

fun frame_times :: "'a tp_event list \<Rightarrow> int list" where
  "frame_times [] = []"
| "frame_times (Frame t # evs) = t # frame_times evs"
| "frame_times (WorkSettles outcome # evs) = frame_times evs"

fun is_synthetic :: "fraction \<Rightarrow> bool" where
  "is_synthetic (Ratio e d) = True"
| "is_synthetic f = False"

text \<open>
  What holds of every state the runner reaches, for the clock readings \<open>ts\<close> its loop has
  used after the first: the shape of the report list, and where the function body can
  be for each combination of the two promises.
\<close>

fun is_fulfilled :: "'a result option \<Rightarrow> bool" where
  "is_fulfilled (Some (Inr v)) = True"
| "is_fulfilled w = False"

definition tp_inv :: "int \<Rightarrow> int \<Rightarrow> int \<Rightarrow> int list \<Rightarrow> 'a tp_state \<Rightarrow> bool" where
  "tp_inv t0 t1 d ts s \<longleftrightarrow>
     reported s = Lit0 # map (\<lambda>t. Ratio (t - t0) d) (t1 # ts)
                    @ (if phase s = Returned then [Lit1] else [])
   \<and> tp_now s = last (t1 # ts)
   \<and> (case phase s of
        AwaitRace \<Rightarrow> \<not> progress_done s \<and> work_state s = None \<and> \<not> tp_stop s
      | AwaitProgress \<Rightarrow> \<not> progress_done s \<and> is_fulfilled (work_state s) \<and> tp_stop s
      | AwaitWork \<Rightarrow> progress_done s \<and> work_state s = None
      | Returned \<Rightarrow> progress_done s \<and> is_fulfilled (work_state s)
      | Threw e \<Rightarrow> work_state s = Some (Inl e))"

section \<open>Properties of the readers\<close>

subsection \<open>Slices, bytes and the header\<close>

lemma blob_slice_nonneg:
  assumes "0 \<le> start" "0 \<le> stop"
  shows "blob_slice b start stop = bytes_in b (nat start) (nat stop)"
proof -
  have "take (nat (min stop (int (length b))) - nat (min start (int (length b)))) (drop (nat (min start (int (length b)))) b)
      = drop (nat start) (take (nat stop) b)"
    using assms by (cases "start \<le> int (length b)") (auto simp: drop_take min_def)
  then show ?thesis using assms
    by (auto simp: blob_slice_def slice_range_def bytes_in_def Let_def max_def min_def drop_take)
qed

lemma bytes_in_nth:
  assumes "lo \<le> hi" "hi \<le> length b"
  shows "length (bytes_in b lo hi) = hi - lo \<and> (\<forall>i < hi - lo. bytes_in b lo hi ! i = b ! (lo + i))"
  using assms by (auto simp: bytes_in_def)

lemma bytes_in_bytes_in:
  assumes "lo + c \<le> hi"
  shows "bytes_in (bytes_in b lo hi) a c = bytes_in b (lo + a) (lo + c)"
  using assms by (simp add: bytes_in_def take_drop add.commute min_def)

lemma take_drop_bytes_in: "take k (drop a xs) = bytes_in xs a (a + k)"
  by (simp add: bytes_in_def drop_take)

lemma parseIndex_range: "0 \<le> sz \<Longrightarrow> 0 \<le> parseIndex i sz \<and> parseIndex i sz \<le> sz"
  by (auto simp: parseIndex_def)

lemma le_value_nonneg_bound: "le_value xs < 256 ^ length xs"
proof (induction xs)
  case Nil
  then show ?case by simp
next
  case (Cons x xs)
  have "unat x < 256" using unsigned_less [of x, where ?'a = nat] by simp
  with Cons show ?case by simp
qed

lemma header_slice:
  assumes "0 \<le> offs" "offs + 30 \<le> int (length blob)"
  shows "blob_slice blob offs (offs + 30) = bytes_in blob (nat offs) (nat offs + 30)"
    and "length (blob_slice blob offs (offs + 30)) = 30"
proof -
  show a: "blob_slice blob offs (offs + 30) = bytes_in blob (nat offs) (nat offs + 30)"
    using assms by (simp add: blob_slice_nonneg nat_add_distrib)
  show "length (blob_slice blob offs (offs + 30)) = 30"
    unfolding a using assms by (simp add: bytes_in_def)
qed

lemma getUint16_header:
  assumes "0 \<le> offs" "offs + 30 \<le> int (length blob)" "k + 2 \<le> 30"
  shows "getUint16 (blob_slice blob offs (offs + 30)) k
         = Inr (int (le_value (bytes_in blob (nat offs + k) (nat offs + (k + 2)))))"
  using assms header_slice [OF assms(1,2)]
  by (simp add: getUint16_def take_drop_bytes_in bytes_in_bytes_in add.assoc)

lemma getUint32_header:
  assumes "0 \<le> offs" "offs + 30 \<le> int (length blob)" "k + 4 \<le> 30"
  shows "getUint32 (blob_slice blob offs (offs + 30)) k
         = Inr (int (le_value (bytes_in blob (nat offs + k) (nat offs + (k + 4)))))"
  using assms header_slice [OF assms(1,2)]
  by (simp add: getUint32_def take_drop_bytes_in bytes_in_bytes_in add.assoc)

lemma getEntryMetadata_truncated:
  assumes "0 \<le> entry_offset entry"
    and "int (length blob) < entry_offset entry + 30"
  shows "getEntryMetadata blob entry =
     ([BlobSlice (entry_offset entry) (entry_offset entry + 30)], Inl RangeError)"
proof -
  have "length (blob_slice blob (entry_offset entry) (entry_offset entry + 30)) < 30"
    using assms by (auto simp: blob_slice_def slice_range_def Let_def max_def min_def)
  then show ?thesis
    by (auto simp: getEntryMetadata_def ZIP_ENTRY_HEADER_BEGIN_LENGTH_def Let_def bindE_def
        getUint16_def getUint32_def)
qed

text \<open>
  Claim C2. When the container holds the 30 bytes at \<open>[o, o + 30)\<close> for the header
  offset \<open>o\<close> of the entry descriptor, \<open>getEntryMetadata\<close> returns the metadata whose
  fields are the little-endian values of bytes \<open>[8, 10)\<close>, \<open>[18, 22)\<close> and \<open>[22, 26)\<close> of
  that header, with \<open>headerSize\<close> 30 plus the two 16-bit values at \<open>[26, 28)\<close> and
  \<open>[28, 30)\<close>; the one access it makes to the container is the slice \<open>[o, o + 30)\<close>.
\<close>

theorem getEntryMetadata_decodes_header:
  assumes "0 \<le> entry_offset entry"
    and "entry_offset entry + 30 \<le> int (length blob)"
  shows "getEntryMetadata blob entry =
     ([BlobSlice (entry_offset entry) (entry_offset entry + 30)],
      Inr \<lparr> offset = entry_offset entry,
            compressionMethod =
              int (le_value (bytes_in blob (nat (entry_offset entry) + 8)
                                           (nat (entry_offset entry) + 10))),
            compressedSize =
              int (le_value (bytes_in blob (nat (entry_offset entry) + 18)
                                           (nat (entry_offset entry) + 22))),
            uncompressedSize =
              int (le_value (bytes_in blob (nat (entry_offset entry) + 22)
                                           (nat (entry_offset entry) + 26))),
            headerSize =
              30 + int (le_value (bytes_in blob (nat (entry_offset entry) + 26)
                                                (nat (entry_offset entry) + 28)))
                 + int (le_value (bytes_in blob (nat (entry_offset entry) + 28)
                                                (nat (entry_offset entry) + 30))) \<rparr>)"
  using assms
  by (simp add: getEntryMetadata_def ZIP_ENTRY_HEADER_BEGIN_LENGTH_def Let_def bindE_def
      getUint16_header getUint32_header)

theorem getEntryMetadata_decodes_header_witness:
  "0 \<le> entry_offset example_entry
   \<and> entry_offset example_entry + 30 \<le> int (length example_container)
   \<and> getEntryMetadata example_container example_entry =
     ([BlobSlice 2 32],
      Inr \<lparr> offset = 2, compressionMethod = 0, compressedSize = 3,
            uncompressedSize = 3, headerSize = 31 \<rparr>)"
  using getEntryMetadata_decodes_header [of example_entry example_container]
  by (simp add: example_entry_def example_container_def example_header_def bytes_in_def)

subsection \<open>The stored reader behind the accessor\<close>

lemma getEntryMetadata_Inr:
  assumes "getEntryMetadata blob entry = (l, Inr md)"
  shows "l = [BlobSlice (entry_offset entry) (entry_offset entry + 30)]"
    and "offset md = entry_offset entry"
    and "0 \<le> compressionMethod md" and "0 \<le> compressedSize md"
    and "0 \<le> uncompressedSize md" and "30 \<le> headerSize md"
  using assms
  by (auto simp: getEntryMetadata_def ZIP_ENTRY_HEADER_BEGIN_LENGTH_def Let_def bindE_def
      getUint16_def getUint32_def split: if_splits)

lemma init_stored:
  assumes "getEntryMetadata blob entry = (l, Inr md)" and "compressionMethod md = 0"
  shows "init (new_BlobEntryReader blob entry mime opts) =
     (l, Inr ((new_BlobEntryReader blob entry mime opts)
               \<lparr> this_reader := Some (StoredReader (new_BlobEntryReaderImpl blob md)),
                 this_size := compressedSize md \<rparr>))"
  using assms
  by (simp add: init_def new_BlobEntryReader_def bindIO_def set_reader_def
      new_BlobEntryReaderImpl_def)

lemma zipGetData_log:
  assumes "zipGetData entry mime opts = (l, Inr v)"
  shows "l = [GetData mime opts]"
  using assms
  by (auto simp: zipGetData_def call_getData_def split: option.splits prod.splits sum.splits)

lemma impl_read_bytes_in:
  assumes "0 \<le> impl_offset r" and "0 \<le> impl_size r"
  shows "impl_readUint8Array r index len =
     ([BlobSlice (impl_offset r + parseIndex index (impl_size r))
                 (impl_offset r + parseIndex (index + len) (impl_size r))],
      Inr (bytes_in (impl_blob r)
             (nat (impl_offset r + parseIndex index (impl_size r)))
             (nat (impl_offset r + parseIndex (index + len) (impl_size r)))))"
proof -
  have "0 \<le> parseIndex index (impl_size r)" "0 \<le> parseIndex (index + len) (impl_size r)"
    using assms(2) by (simp_all add: parseIndex_range)
  then show ?thesis using assms(1)
    by (simp add: impl_readUint8Array_def impl_bounds_def blob_slice_nonneg add.commute)
qed

text \<open>
  The clamping of \<open>parseIndex\<close> is the clamping \<^verbatim>\<open>Blob.slice\<close> does itself, so the
  stored reader returns what \<^verbatim>\<open>slice(index, index + length)\<close> returns on the blob of the
  entry's data alone, which is also what a \<open>BlobReader\<close> over that blob returns.
\<close>

lemma slice_range_parseIndex:
  "slice_range b a c =
     (nat (parseIndex a (int (length b))),
      nat (parseIndex a (int (length b))
           + max (parseIndex c (int (length b)) - parseIndex a (int (length b))) 0))"
  by (simp add: slice_range_def parseIndex_def Let_def add.commute)

lemma parseIndex_idem:
  assumes "0 \<le> sz"
  shows "parseIndex (parseIndex a sz) sz = parseIndex a sz"
  using assms by (auto simp: parseIndex_def)

lemma blob_slice_parseIndex:
  "blob_slice b (parseIndex a (int (length b))) (parseIndex c (int (length b)))
     = blob_slice b a c"
  by (simp add: blob_slice_def slice_range_parseIndex parseIndex_idem)

lemma stored_read_as_window_slice:
  assumes "0 \<le> impl_offset r" and "0 \<le> impl_size r"
    and "impl_offset r + impl_size r \<le> int (length (impl_blob r))"
  defines "window \<equiv> bytes_in (impl_blob r) (nat (impl_offset r))
                               (nat (impl_offset r + impl_size r))"
  shows "snd (impl_readUint8Array r index len) = Inr (blob_slice window index (index + len))"
    and "snd (impl_readUint8Array r index len) = snd (BlobReader_readUint8Array window index len)"
proof -
  let ?S = "impl_size r"
  have len: "int (length window) = ?S"
    using assms(1-3) by (simp add: window_def bytes_in_def)
  have rng: "0 \<le> parseIndex i ?S" "parseIndex i ?S \<le> ?S" for i
    using parseIndex_range [OF assms(2)] by simp_all
  have "blob_slice window (parseIndex index ?S) (parseIndex (index + len) ?S)
      = bytes_in window (nat (parseIndex index ?S)) (nat (parseIndex (index + len) ?S))"
    using rng by (simp add: blob_slice_nonneg)
  also have "\<dots> = bytes_in (impl_blob r)
                     (nat (impl_offset r) + nat (parseIndex index ?S))
                     (nat (impl_offset r) + nat (parseIndex (index + len) ?S))"
    unfolding window_def using rng assms(1,2)
    by (intro bytes_in_bytes_in) (simp add: nat_add_distrib nat_le_eq_zle)
  also have "\<dots> = bytes_in (impl_blob r)
                     (nat (impl_offset r + parseIndex index ?S))
                     (nat (impl_offset r + parseIndex (index + len) ?S))"
    using rng assms(1) by (simp add: nat_add_distrib)
  finally have eq: "blob_slice window (parseIndex index ?S) (parseIndex (index + len) ?S)
      = bytes_in (impl_blob r)
                     (nat (impl_offset r + parseIndex index ?S))
                     (nat (impl_offset r + parseIndex (index + len) ?S))" .
  show "snd (impl_readUint8Array r index len) = snd (BlobReader_readUint8Array window index len)"
    by (simp add: impl_read_bytes_in [OF assms(1,2)] BlobReader_readUint8Array_def len eq)
  then show "snd (impl_readUint8Array r index len) = Inr (blob_slice window index (index + len))"
    using blob_slice_parseIndex [of window index "index + len"]
    by (simp add: BlobReader_readUint8Array_def len)
qed

text \<open>
  Claim C1. For a stored entry (compression method 0) the initialised accessor reads
  through the stored reader: \<open>read(index, length)\<close> returns the container bytes in
  \<open>[dataStart + clamp(index), dataStart + clamp(index + length))\<close> with
  \<open>dataStart = offset + headerSize\<close>, which is the direct slice of the container blob at
  those bounds; \<open>read(0, S)\<close> for the size \<open>S\<close> of the entry returns the bytes in
  \<open>[dataStart, dataStart + S)\<close>, byte for byte when the container holds them all.
\<close>

theorem stored_read_is_container_slice:
  assumes "getEntryMetadata blob entry = (l, Inr md)"
    and "compressionMethod md = 0"
    and "0 \<le> entry_offset entry"
  shows "\<exists>this'. init (new_BlobEntryReader blob entry mime opts) = (l, Inr this')
     \<and> this_reader this' = Some (StoredReader (new_BlobEntryReaderImpl blob md))
     \<and> snd (readUint8Array this' index len) =
         Inr (bytes_in blob
               (nat (offset md + headerSize md + parseIndex index (compressedSize md)))
               (nat (offset md + headerSize md + parseIndex (index + len) (compressedSize md))))
     \<and> snd (readUint8Array this' index len) =
         Inr (blob_slice blob
               (offset md + headerSize md + parseIndex index (compressedSize md))
               (offset md + headerSize md + parseIndex (index + len) (compressedSize md)))
     \<and> snd (readUint8Array this' 0 (compressedSize md)) =
         Inr (bytes_in blob (nat (offset md + headerSize md))
                            (nat (offset md + headerSize md + compressedSize md)))
     \<and> snd (readUint8Array this' 0 (compressedSize md)) =
         Inr (blob_slice blob (offset md + headerSize md)
                              (offset md + headerSize md + compressedSize md))
     \<and> (offset md + headerSize md + compressedSize md \<le> int (length blob) \<longrightarrow>
          (\<exists>bs. snd (readUint8Array this' 0 (compressedSize md)) = Inr bs
             \<and> length bs = nat (compressedSize md)
             \<and> (\<forall>i < nat (compressedSize md).
                    bs ! i = blob ! (nat (offset md + headerSize md) + i))))"
proof -
  let ?r = "new_BlobEntryReaderImpl blob md"
  let ?acc = "(new_BlobEntryReader blob entry mime opts)
                 \<lparr> this_reader := Some (StoredReader ?r), this_size := compressedSize md \<rparr>"
  note md = getEntryMetadata_Inr [OF assms(1)]
  have off: "0 \<le> impl_offset ?r" and sz: "0 \<le> impl_size ?r"
    using md assms(3) by (simp_all add: new_BlobEntryReaderImpl_def)
  have fields: "impl_offset ?r = offset md + headerSize md" "impl_size ?r = compressedSize md"
    "impl_blob ?r = blob"
    by (simp_all add: new_BlobEntryReaderImpl_def)
  have rd: "readUint8Array ?acc i n = impl_readUint8Array ?r i n" for i n
    by (simp add: readUint8Array_def)
  have pos: "0 \<le> offset md + headerSize md + parseIndex i (compressedSize md)" for i
    using off sz parseIndex_range [of "compressedSize md" i] by (simp add: fields)
  have whole: "parseIndex 0 (compressedSize md) = 0"
    "parseIndex (0 + compressedSize md) (compressedSize md) = compressedSize md"
    using md(4) by (simp_all add: parseIndex_def)
  have a: "snd (readUint8Array ?acc i n) =
         Inr (bytes_in blob
               (nat (offset md + headerSize md + parseIndex i (compressedSize md)))
               (nat (offset md + headerSize md + parseIndex (i + n) (compressedSize md))))" for i n
    unfolding rd impl_read_bytes_in [OF off sz] by (simp add: fields)
  have b: "snd (readUint8Array ?acc i n) =
         Inr (blob_slice blob
               (offset md + headerSize md + parseIndex i (compressedSize md))
               (offset md + headerSize md + parseIndex (i + n) (compressedSize md)))" for i n
    unfolding a using pos by (simp add: blob_slice_nonneg)
  have "init (new_BlobEntryReader blob entry mime opts) = (l, Inr ?acc)"
    by (rule init_stored [OF assms(1,2)])
  moreover have "this_reader ?acc = Some (StoredReader ?r)" by simp
  moreover note a [of index len] b [of index len]
  moreover have "snd (readUint8Array ?acc 0 (compressedSize md)) =
         Inr (bytes_in blob (nat (offset md + headerSize md))
                            (nat (offset md + headerSize md + compressedSize md)))"
    using a [of 0 "compressedSize md"] whole by simp
  moreover have "snd (readUint8Array ?acc 0 (compressedSize md)) =
         Inr (blob_slice blob (offset md + headerSize md)
                              (offset md + headerSize md + compressedSize md))"
    using b [of 0 "compressedSize md"] whole by simp
  moreover have "\<exists>bs. snd (readUint8Array ?acc 0 (compressedSize md)) = Inr bs
             \<and> length bs = nat (compressedSize md)
             \<and> (\<forall>i < nat (compressedSize md).
                    bs ! i = blob ! (nat (offset md + headerSize md) + i))"
    if "offset md + headerSize md + compressedSize md \<le> int (length blob)"
  proof -
    have le: "nat (offset md + headerSize md)
                \<le> nat (offset md + headerSize md + compressedSize md)"
      and len: "nat (offset md + headerSize md + compressedSize md) \<le> length blob"
      and df: "nat (offset md + headerSize md + compressedSize md)
                 - nat (offset md + headerSize md) = nat (compressedSize md)"
      using that md(4) off by (simp_all add: fields)
    show ?thesis
      using a [of 0 "compressedSize md"] whole bytes_in_nth [OF le len] by (simp add: df)
  qed
  ultimately show ?thesis by blast
qed

lemma example_metadata:
  "getEntryMetadata example_container example_entry =
     ([BlobSlice 2 32],
      Inr \<lparr> offset = 2, compressionMethod = 0, compressedSize = 3,
            uncompressedSize = 3, headerSize = 31 \<rparr>)"
  by (simp add: getEntryMetadata_def example_entry_def
      example_container_def example_header_def ZIP_ENTRY_HEADER_BEGIN_LENGTH_def
      blob_slice_def slice_range_def getUint16_def getUint32_def bindE_def)

theorem stored_read_is_container_slice_witness:
  "getEntryMetadata example_container example_entry =
     ([BlobSlice 2 32],
      Inr \<lparr> offset = 2, compressionMethod = 0, compressedSize = 3,
            uncompressedSize = 3, headerSize = 31 \<rparr>)
   \<and> 0 \<le> entry_offset example_entry
   \<and> (2 :: int) + 31 + 3 \<le> int (length example_container)
   \<and> (\<exists>this'. init (new_BlobEntryReader example_container example_entry None None)
                 = ([BlobSlice 2 32], Inr this')
        \<and> snd (readUint8Array this' 1 5) = Inr [0xBB, 0xCC]
        \<and> snd (readUint8Array this' 0 3) = Inr [0xAA, 0xBB, 0xCC])"
proof -
  have m: "getEntryMetadata example_container example_entry =
     ([BlobSlice 2 32],
      Inr \<lparr> offset = 2, compressionMethod = 0, compressedSize = 3,
            uncompressedSize = 3, headerSize = 31 \<rparr>)"
    by (rule example_metadata)
  have o: "0 \<le> entry_offset example_entry" by (simp add: example_entry_def)
  have b1: "bytes_in example_container 33 36 = [0xAA, 0xBB, 0xCC]"
    and b2: "bytes_in example_container 34 36 = [0xBB, 0xCC]"
    by (simp_all add: bytes_in_def example_container_def example_header_def)
  have n: "(2 :: int) + 31 + 3 \<le> int (length example_container)"
    by (simp add: example_container_def example_header_def)
  from stored_read_is_container_slice [OF m _ o, of None None 1 5]
  show ?thesis using m o n b1 b2 by (auto simp: parseIndex_def)
qed

subsection \<open>Index clamping\<close>

lemma blob_slice_empty:
  assumes "0 \<le> stop" and "stop \<le> start"
  shows "blob_slice b start stop = []"
  using assms by (auto simp: blob_slice_def slice_range_def Let_def max_def min_def)

lemma impl_read_empty:
  assumes "0 \<le> impl_size r" and "0 \<le> impl_offset r"
    and "parseIndex (index + len) (impl_size r) \<le> parseIndex index (impl_size r)"
  shows "snd (impl_readUint8Array r index len) = Inr []"
proof -
  have "0 \<le> parseIndex (index + len) (impl_size r) + impl_offset r"
    using assms(1,2) parseIndex_range [of "impl_size r" "index + len"] by simp
  then show ?thesis using assms(3)
    by (simp add: impl_readUint8Array_def impl_bounds_def blob_slice_empty)
qed

text \<open>
  Claim C3, as amended. \<open>parseIndex\<close> maps a negative index to \<open>max (index + size) 0\<close>
  and a non-negative index to \<open>min index size\<close>. On an entry of size \<open>S\<close>, \<open>read(S, 10)\<close>
  returns an empty result and \<open>read(-(S+5), S)\<close> has its start clamped to 0, that is to
  the start of the data window. \<open>read(-1, 1)\<close> returns an empty result, because its end
  bound \<open>-1 + 1 = 0\<close> is clamped as a non-negative index; the last byte of the entry is
  what \<open>read(S - 1, 1)\<close> returns.
\<close>

theorem parseIndex_clamping:
  assumes "0 \<le> impl_size r" and "0 \<le> impl_offset r"
  shows "(index < 0 \<longrightarrow> parseIndex index (impl_size r) = max (index + impl_size r) 0)
     \<and> (0 \<le> index \<longrightarrow> parseIndex index (impl_size r) = min index (impl_size r))
     \<and> snd (impl_readUint8Array r (impl_size r) 10) = Inr []
     \<and> fst (impl_bounds r (- (impl_size r + 5)) (impl_size r)) = impl_offset r
     \<and> snd (impl_readUint8Array r (- 1) 1) = Inr []
     \<and> (1 \<le> impl_size r \<longrightarrow>
          snd (impl_readUint8Array r (impl_size r - 1) 1) =
            Inr (bytes_in (impl_blob r) (nat (impl_offset r + impl_size r - 1))
                                        (nat (impl_offset r + impl_size r))))"
proof -
  have a: "snd (impl_readUint8Array r (impl_size r) 10) = Inr []"
    using assms by (intro impl_read_empty) (auto simp: parseIndex_def)
  have b: "fst (impl_bounds r (- (impl_size r + 5)) (impl_size r)) = impl_offset r"
    using assms by (simp add: impl_bounds_def parseIndex_def)
  have c: "snd (impl_readUint8Array r (- 1) 1) = Inr []"
    using assms by (intro impl_read_empty) (auto simp: parseIndex_def)
  have d: "snd (impl_readUint8Array r (impl_size r - 1) 1) =
            Inr (bytes_in (impl_blob r) (nat (impl_offset r + impl_size r - 1))
                                        (nat (impl_offset r + impl_size r)))"
    if "1 \<le> impl_size r"
    using that by (simp add: impl_read_bytes_in [OF assms(2,1)] parseIndex_def add_diff_eq)
  show ?thesis using a b c d by (simp add: parseIndex_def)
qed

theorem parseIndex_clamping_witness:
  "0 \<le> impl_size example_reader \<and> 0 \<le> impl_offset example_reader
   \<and> parseIndex (- 1) 3 = 2 \<and> parseIndex 7 3 = 3
   \<and> snd (impl_readUint8Array example_reader 3 10) = Inr []
   \<and> fst (impl_bounds example_reader (- 8) 3) = 33
   \<and> snd (impl_readUint8Array example_reader (- 1) 1) = Inr []
   \<and> snd (impl_readUint8Array example_reader 2 1) = Inr [0xCC]"
proof -
  have s: "0 \<le> impl_size example_reader" and o: "0 \<le> impl_offset example_reader"
    by (simp_all add: example_reader_def)
  have v: "impl_size example_reader = 3" "impl_offset example_reader = 33"
    "bytes_in (impl_blob example_reader) 35 36 = [0xCC]"
    by (simp_all add: example_reader_def bytes_in_def example_container_def example_header_def)
  from parseIndex_clamping [OF s o, of "- 1"] parseIndex_clamping [OF s o, of 7]
  show ?thesis using s o by (simp add: v)
qed

text \<open>
  The claim as it was stated fails on the three-byte entry of the small archive: its
  last byte is \<open>0xCC\<close>, and \<open>read(-1, 1)\<close> returns no byte.
\<close>

theorem read_minus_one_counterexample:
  "snd (impl_readUint8Array example_reader 0 3) = Inr [0xAA, 0xBB, 0xCC]
   \<and> snd (impl_readUint8Array example_reader (-1) 1) = Inr []
   \<and> snd (impl_readUint8Array example_reader (-1) 1) \<noteq> Inr [0xCC]"
  by (simp add: impl_readUint8Array_def impl_bounds_def parseIndex_def example_reader_def
      blob_slice_def slice_range_def example_container_def example_header_def)

text \<open>
  Claim C4. For every index and length asked of a stored reader of size \<open>S\<close> whose data
  window starts at \<open>dataStart\<close>, the two bounds handed to the container's slice lie in
  \<open>[dataStart, dataStart + S]\<close>, and every position of the container that the slice
  spans lies in \<open>[dataStart, dataStart + S)\<close>.
\<close>

theorem stored_read_within_window:
  assumes "0 \<le> impl_size r" and "0 \<le> impl_offset r"
  shows "\<exists>start stop.
       fst (impl_readUint8Array r index len) = [BlobSlice start stop]
     \<and> impl_offset r \<le> start \<and> start \<le> impl_offset r + impl_size r
     \<and> impl_offset r \<le> stop \<and> stop \<le> impl_offset r + impl_size r
     \<and> (\<forall>p. fst (slice_range (impl_blob r) start stop) \<le> p
              \<and> p < snd (slice_range (impl_blob r) start stop)
            \<longrightarrow> impl_offset r \<le> int p \<and> int p < impl_offset r + impl_size r)"
proof -
  define start where "start = parseIndex index (impl_size r) + impl_offset r"
  define stop where "stop = parseIndex (index + len) (impl_size r) + impl_offset r"
  have lg: "fst (impl_readUint8Array r index len) = [BlobSlice start stop]"
    by (simp add: impl_readUint8Array_def impl_bounds_def start_def stop_def)
  have bs: "impl_offset r \<le> start" "start \<le> impl_offset r + impl_size r"
    "impl_offset r \<le> stop" "stop \<le> impl_offset r + impl_size r"
    using parseIndex_range [OF assms(1)] by (simp_all add: start_def stop_def)
  have tch: "impl_offset r \<le> int p \<and> int p < impl_offset r + impl_size r"
    if "fst (slice_range (impl_blob r) start stop) \<le> p"
      and "p < snd (slice_range (impl_blob r) start stop)" for p
    using that bs assms(2)
    by (auto simp: slice_range_def Let_def max_def min_def split: if_splits)
  show ?thesis using lg bs tch by blast
qed

theorem stored_read_within_window_witness:
  "0 \<le> impl_size example_reader \<and> 0 \<le> impl_offset example_reader
   \<and> fst (impl_readUint8Array example_reader (- 2) 100) = [BlobSlice 34 36]
   \<and> slice_range (impl_blob example_reader) 34 36 = (34, 36)
   \<and> (\<exists>start stop.
       fst (impl_readUint8Array example_reader (- 2) 100) = [BlobSlice start stop]
     \<and> 33 \<le> start \<and> start \<le> 36 \<and> 33 \<le> stop \<and> stop \<le> 36
     \<and> (fst (slice_range (impl_blob example_reader) start stop) \<le> 35
          \<and> 35 < snd (slice_range (impl_blob example_reader) start stop)
        \<longrightarrow> 33 \<le> int 35 \<and> int 35 < 36))"
proof -
  have s: "0 \<le> impl_size example_reader" and o: "0 \<le> impl_offset example_reader"
    by (simp_all add: example_reader_def)
  have v: "impl_size example_reader = 3" "impl_offset example_reader = 33"
    by (simp_all add: example_reader_def)
  have l: "fst (impl_readUint8Array example_reader (- 2) 100) = [BlobSlice 34 36]"
    by (simp add: impl_readUint8Array_def impl_bounds_def parseIndex_def example_reader_def)
  have r: "slice_range (impl_blob example_reader) 34 36 = (34, 36)"
    by (simp add: slice_range_def example_reader_def example_container_def example_header_def)
  from stored_read_within_window [OF s o, of "- 2" 100]
  show ?thesis using s o l r unfolding v by auto
qed

text \<open>
  Claim C10, as amended. A read of the stored reader never raises an error. It returns
  the empty byte array whenever the clamped end bound is at most the clamped start
  bound: for length 0, for a negative length when \<open>index\<close> and \<open>index + length\<close> are both
  negative or both non-negative, and for a start at or beyond the size of the entry.
\<close>

theorem stored_read_empty_cases:
  assumes "0 \<le> impl_size r" and "0 \<le> impl_offset r"
  shows "(\<exists>bs. snd (impl_readUint8Array r index len) = Inr bs)
     \<and> (parseIndex (index + len) (impl_size r) \<le> parseIndex index (impl_size r)
          \<longrightarrow> snd (impl_readUint8Array r index len) = Inr [])
     \<and> (len = 0 \<longrightarrow> snd (impl_readUint8Array r index len) = Inr [])
     \<and> (len \<le> 0 \<and> (index < 0 \<or> 0 \<le> index + len)
          \<longrightarrow> snd (impl_readUint8Array r index len) = Inr [])
     \<and> (impl_size r \<le> index \<longrightarrow> snd (impl_readUint8Array r index len) = Inr [])"
proof -
  have a: "\<exists>bs. snd (impl_readUint8Array r index len) = Inr bs"
    by (simp add: impl_readUint8Array_def split: prod.splits)
  have b: "snd (impl_readUint8Array r index len) = Inr []"
    if "parseIndex (index + len) (impl_size r) \<le> parseIndex index (impl_size r)"
    using assms that by (rule impl_read_empty)
  have c: "parseIndex (index + len) (impl_size r) \<le> parseIndex index (impl_size r)"
    if "len = 0" using that by simp
  have d: "parseIndex (index + len) (impl_size r) \<le> parseIndex index (impl_size r)"
    if "len \<le> 0 \<and> (index < 0 \<or> 0 \<le> index + len)"
    using that by (auto simp: parseIndex_def)
  have e: "parseIndex (index + len) (impl_size r) \<le> parseIndex index (impl_size r)"
    if "impl_size r \<le> index"
    using that assms(1) by (auto simp: parseIndex_def)
  show ?thesis using a b c d e by blast
qed

theorem stored_read_empty_cases_witness:
  "0 \<le> impl_size example_reader \<and> 0 \<le> impl_offset example_reader
   \<and> snd (impl_readUint8Array example_reader 1 0) = Inr []
   \<and> snd (impl_readUint8Array example_reader 2 (- 1)) = Inr []
   \<and> snd (impl_readUint8Array example_reader (- 1) (- 7)) = Inr []
   \<and> snd (impl_readUint8Array example_reader 3 2) = Inr []"
proof -
  have s: "0 \<le> impl_size example_reader" and o: "0 \<le> impl_offset example_reader"
    by (simp_all add: example_reader_def)
  have v: "impl_size example_reader = 3" by (simp add: example_reader_def)
  from stored_read_empty_cases [OF s o, of 1 0] stored_read_empty_cases [OF s o, of 2 "- 1"]
    stored_read_empty_cases [OF s o, of "- 1" "- 7"] stored_read_empty_cases [OF s o, of 3 2]
  show ?thesis using s o by (simp add: v)
qed

text \<open>
  The claim as it was stated fails for a negative length that takes the end bound below
  zero from a non-negative index: the end is then counted from the end of the entry, and
  \<open>read(0, -1)\<close> on the three-byte entry returns its first two bytes.
\<close>

theorem negative_length_counterexample:
  "snd (impl_readUint8Array example_reader 0 (- 1)) = Inr [0xAA, 0xBB]"
  by (simp add: impl_readUint8Array_def impl_bounds_def parseIndex_def example_reader_def
      blob_slice_def slice_range_def example_container_def example_header_def)


subsection \<open>Initialisation and error unwrapping\<close>

text \<open>
  Claim C5. \<open>init\<close> parses the metadata and branches on the compression method. For
  method 0 it installs the stored reader over the container and calls nothing else. For
  any other method it calls \<open>getData\<close> once, with the MIME string and options of the
  accessor, and installs a \<open>BlobReader\<close> over the decoded blob; if the decoding throws,
  \<open>init\<close> throws the same value. After \<open>init\<close> the size of the accessor is the size of the
  installed reader, and every read gives what the installed reader gives.
\<close>

theorem init_chooses_reader:
  assumes "getEntryMetadata (this_blob this) (this_entry this) = (l, Inr md)"
  shows "(compressionMethod md = 0 \<longrightarrow>
           (\<exists>this'. init this = (l, Inr this')
              \<and> this_reader this' =
                  Some (StoredReader (new_BlobEntryReaderImpl (this_blob this) md))
              \<and> this_size this' = compressedSize md
              \<and> (\<forall>index len. readUint8Array this' index len =
                    impl_readUint8Array (new_BlobEntryReaderImpl (this_blob this) md)
                      index len)))
     \<and> (compressionMethod md \<noteq> 0 \<longrightarrow>
           (\<forall>l' entryBlob.
              zipGetData (this_entry this) (this_mimeString this) (this_options this)
                = (l', Inr entryBlob) \<longrightarrow>
              (\<exists>this'. init this
                          = (l @ [GetData (this_mimeString this) (this_options this)], Inr this')
                 \<and> this_reader this' = Some (BlobReader entryBlob)
                 \<and> this_size this' = int (length entryBlob)
                 \<and> (\<forall>index len. readUint8Array this' index len =
                       BlobReader_readUint8Array entryBlob index len))))
     \<and> (compressionMethod md \<noteq> 0 \<longrightarrow>
           (\<forall>l' e.
              zipGetData (this_entry this) (this_mimeString this) (this_options this)
                = (l', Inl e) \<longrightarrow> init this = (l @ l', Inl e)))"
proof (intro conjI impI allI)
  assume "compressionMethod md = 0"
  then have "init this = (l, Inr (this\<lparr> this_reader :=
                 Some (StoredReader (new_BlobEntryReaderImpl (this_blob this) md)),
               this_size := compressedSize md \<rparr>))"
    using assms by (simp add: init_def bindIO_def set_reader_def new_BlobEntryReaderImpl_def)
  then show "\<exists>this'. init this = (l, Inr this')
              \<and> this_reader this' =
                  Some (StoredReader (new_BlobEntryReaderImpl (this_blob this) md))
              \<and> this_size this' = compressedSize md
              \<and> (\<forall>index len. readUint8Array this' index len =
                    impl_readUint8Array (new_BlobEntryReaderImpl (this_blob this) md)
                      index len)"
    by (simp add: readUint8Array_def)
next
  fix l' entryBlob
  assume cm: "compressionMethod md \<noteq> 0"
    and z: "zipGetData (this_entry this) (this_mimeString this) (this_options this)
              = (l', Inr entryBlob)"
  have l': "l' = [GetData (this_mimeString this) (this_options this)]"
    using z by (rule zipGetData_log)
  have "init this = (l @ l', Inr (this\<lparr> this_reader := Some (BlobReader entryBlob),
               this_size := int (length entryBlob) \<rparr>))"
    using assms cm z by (simp add: init_def bindIO_def set_reader_def)
  then show "\<exists>this'. init this
                          = (l @ [GetData (this_mimeString this) (this_options this)], Inr this')
                 \<and> this_reader this' = Some (BlobReader entryBlob)
                 \<and> this_size this' = int (length entryBlob)
                 \<and> (\<forall>index len. readUint8Array this' index len =
                       BlobReader_readUint8Array entryBlob index len)"
    unfolding l' by (simp add: readUint8Array_def)
next
  fix l' e
  assume "compressionMethod md \<noteq> 0"
    and "zipGetData (this_entry this) (this_mimeString this) (this_options this) = (l', Inl e)"
  then show "init this = (l @ l', Inl e)"
    using assms by (simp add: init_def bindIO_def)
qed

lemma deflated_metadata:
  "getEntryMetadata deflated_container deflated_entry =
     ([BlobSlice 2 32],
      Inr \<lparr> offset = 2, compressionMethod = 8, compressedSize = 3,
            uncompressedSize = 3, headerSize = 31 \<rparr>)"
  by (simp add: getEntryMetadata_def deflated_entry_def deflated_container_def
      example_container_def example_header_def ZIP_ENTRY_HEADER_BEGIN_LENGTH_def
      blob_slice_def slice_range_def getUint16_def getUint32_def bindE_def)

theorem init_chooses_reader_witness:
  "(\<exists>this'. init (new_BlobEntryReader example_container example_entry None None)
               = ([BlobSlice 2 32], Inr this')
      \<and> this_reader this' = Some (StoredReader example_reader)
      \<and> this_size this' = 3
      \<and> readUint8Array this' 1 1 = ([BlobSlice 34 35], Inr [0xBB]))
   \<and> (\<exists>this'. init (new_BlobEntryReader deflated_container deflated_entry (Some ''application/zip'') None)
               = ([BlobSlice 2 32, GetData (Some ''application/zip'') None], Inr this')
      \<and> this_reader this' = Some (BlobReader [0x01, 0x02, 0x03, 0x04])
      \<and> this_size this' = 4
      \<and> readUint8Array this' 1 2 = ([], Inr [0x02, 0x03]))
   \<and> init (new_BlobEntryReader deflated_container example_entry None None)
       = ([BlobSlice 2 32], Inl TypeError)"
proof -
  let ?a = "new_BlobEntryReader example_container example_entry None None"
  let ?b = "new_BlobEntryReader deflated_container deflated_entry (Some ''application/zip'') None"
  have ma: "getEntryMetadata (this_blob ?a) (this_entry ?a) = ([BlobSlice 2 32],
      Inr \<lparr> offset = 2, compressionMethod = 0, compressedSize = 3,
            uncompressedSize = 3, headerSize = 31 \<rparr>)"
    using example_metadata by (simp add: new_BlobEntryReader_def)
  have mb: "getEntryMetadata (this_blob ?b) (this_entry ?b) = ([BlobSlice 2 32],
      Inr \<lparr> offset = 2, compressionMethod = 8, compressedSize = 3,
            uncompressedSize = 3, headerSize = 31 \<rparr>)"
    using deflated_metadata by (simp add: new_BlobEntryReader_def)
  have z: "zipGetData (this_entry ?b) (this_mimeString ?b) (this_options ?b)
             = ([GetData (Some ''application/zip'') None], Inr [0x01, 0x02, 0x03, 0x04])"
    by (simp add: new_BlobEntryReader_def zipGetData_def call_getData_def deflated_entry_def)
  have r: "new_BlobEntryReaderImpl example_container
             \<lparr> offset = 2, compressionMethod = 0, compressedSize = 3,
               uncompressedSize = 3, headerSize = 31 \<rparr> = example_reader"
    by (simp add: new_BlobEntryReaderImpl_def example_reader_def)
  have ra: "impl_readUint8Array example_reader 1 1 = ([BlobSlice 34 35], Inr [0xBB])"
    by (simp add: impl_readUint8Array_def impl_bounds_def parseIndex_def example_reader_def
      blob_slice_def slice_range_def example_container_def example_header_def)
  have rb: "BlobReader_readUint8Array [0x01, 0x02, 0x03, 0x04] 1 2 = ([], Inr [0x02, 0x03])"
    by (simp add: BlobReader_readUint8Array_def parseIndex_def blob_slice_def slice_range_def)
  have A: "\<exists>this'. init ?a = ([BlobSlice 2 32], Inr this')
      \<and> this_reader this' = Some (StoredReader example_reader)
      \<and> this_size this' = 3
      \<and> readUint8Array this' 1 1 = ([BlobSlice 34 35], Inr [0xBB])"
    using init_chooses_reader [OF ma] r ra
    by (auto simp: new_BlobEntryReader_def)
  have B: "\<exists>this'. init ?b
               = ([BlobSlice 2 32, GetData (Some ''application/zip'') None], Inr this')
      \<and> this_reader this' = Some (BlobReader [0x01, 0x02, 0x03, 0x04])
      \<and> this_size this' = 4
      \<and> readUint8Array this' 1 2 = ([], Inr [0x02, 0x03])"
    using init_chooses_reader [OF mb] z rb
    by (auto simp: new_BlobEntryReader_def)
  let ?c = "new_BlobEntryReader deflated_container example_entry None None"
  have mc: "getEntryMetadata (this_blob ?c) (this_entry ?c) = ([BlobSlice 2 32],
      Inr \<lparr> offset = 2, compressionMethod = 8, compressedSize = 3,
            uncompressedSize = 3, headerSize = 31 \<rparr>)"
    using deflated_metadata
    by (simp add: new_BlobEntryReader_def getEntryMetadata_def example_entry_def
        deflated_entry_def)
  have zc: "zipGetData (this_entry ?c) (this_mimeString ?c) (this_options ?c)
             = ([], Inl TypeError)"
    by (simp add: new_BlobEntryReader_def zipGetData_def call_getData_def example_entry_def)
  have C: "init ?c = ([BlobSlice 2 32], Inl TypeError)"
    using init_chooses_reader [OF mc] zc by simp
  show ?thesis using A B C by blast
qed

text \<open>
  Claim C8, as amended. When the call of \<open>getData\<close> throws a ProgressEvent of type
  \<open>error\<close> whose target is not \<open>null\<close>, \<open>zipGetData\<close> throws what the \<open>error\<close> property of
  the target gives: the error \<open>X\<close> the target carries, and \<open>undefined\<close> when the target has
  no such property. When it throws any other value \<open>Y\<close> (not a ProgressEvent, one of
  another type, or one with a \<open>null\<close> target), \<open>zipGetData\<close> throws \<open>Y\<close>; when it
  returns, \<open>zipGetData\<close> returns the same result.
\<close>

theorem zipGetData_unwraps:
  "(call_getData entry mime opts = (l, Inl (ProgressEvent ''error'' (Some (EventTarget X))))
      \<longrightarrow> zipGetData entry mime opts = (l, Inl X))
   \<and> (call_getData entry mime opts = (l, Inl Y)
        \<and> (\<forall>tgt. Y \<noteq> ProgressEvent ''error'' (Some tgt))
      \<longrightarrow> zipGetData entry mime opts = (l, Inl Y))
   \<and> (call_getData entry mime opts = (l, Inr v)
      \<longrightarrow> zipGetData entry mime opts = (l, Inr v))"
proof (intro conjI impI)
  assume "call_getData entry mime opts = (l, Inl (ProgressEvent ''error'' (Some (EventTarget X))))"
  then show "zipGetData entry mime opts = (l, Inl X)"
    by (simp add: zipGetData_def)
next
  assume a: "call_getData entry mime opts = (l, Inl Y)
     \<and> (\<forall>tgt. Y \<noteq> ProgressEvent ''error'' (Some tgt))"
  then have "unwrap_caught Y = Y"
    by (cases Y rule: unwrap_caught.cases) auto
  with a show "zipGetData entry mime opts = (l, Inl Y)"
    by (simp add: zipGetData_def)
next
  assume "call_getData entry mime opts = (l, Inr v)"
  then show "zipGetData entry mime opts = (l, Inr v)"
    by (simp add: zipGetData_def)
qed

theorem zipGetData_unwraps_witness:
  "zipGetData \<lparr> entry_offset = 0, entry_getData = Some (\<lambda>mime opts.
       Inl (ProgressEvent ''error'' (Some (EventTarget (Error ''NotReadableError''))))) \<rparr>
     None None = ([GetData None None], Inl (Error ''NotReadableError''))
   \<and> zipGetData \<lparr> entry_offset = 0, entry_getData = Some (\<lambda>mime opts.
       Inl (ProgressEvent ''abort'' (Some (EventTarget (Error ''NotReadableError''))))) \<rparr>
     None None
      = ([GetData None None],
         Inl (ProgressEvent ''abort'' (Some (EventTarget (Error ''NotReadableError'')))))
   \<and> zipGetData \<lparr> entry_offset = 0, entry_getData = Some (\<lambda>mime opts.
       Inl (ProgressEvent ''error'' None)) \<rparr> None None
      = ([GetData None None], Inl (ProgressEvent ''error'' None))
   \<and> zipGetData example_entry None None = ([], Inl TypeError)
   \<and> zipGetData deflated_entry None None = ([GetData None None], Inr [0x01, 0x02, 0x03, 0x04])
   \<and> zipGetData failing_entry None None = ([GetData None None], Inl Undefined)"
proof -
  let ?e1 = "\<lparr> entry_offset = 0, entry_getData = Some (\<lambda>mime opts.
       Inl (ProgressEvent ''error'' (Some (EventTarget (Error ''NotReadableError''))))) \<rparr>"
  let ?e2 = "\<lparr> entry_offset = 0, entry_getData = Some (\<lambda>mime opts.
       Inl (ProgressEvent ''abort'' (Some (EventTarget (Error ''NotReadableError''))))) \<rparr>"
  let ?e3 = "\<lparr> entry_offset = 0, entry_getData = Some (\<lambda>mime opts.
       Inl (ProgressEvent ''error'' None)) \<rparr>"
  have c1: "call_getData ?e1 None None = ([GetData None None],
      Inl (ProgressEvent ''error'' (Some (EventTarget (Error ''NotReadableError'')))))"
    and c2: "call_getData ?e2 None None = ([GetData None None],
      Inl (ProgressEvent ''abort'' (Some (EventTarget (Error ''NotReadableError'')))))"
    and c3: "call_getData ?e3 None None = ([GetData None None], Inl (ProgressEvent ''error'' None))"
    and c4: "call_getData example_entry None None = ([], Inl TypeError)"
    and c5: "call_getData deflated_entry None None
               = ([GetData None None], Inr [0x01, 0x02, 0x03, 0x04])"
    and c6: "call_getData failing_entry None None
               = ([GetData None None], Inl (ProgressEvent ''error'' (Some (EventTarget Undefined))))"
    by (simp_all add: call_getData_def example_entry_def deflated_entry_def failing_entry_def
        failing_getData_def event_without_error_def)
  from zipGetData_unwraps [of ?e1 None None "[GetData None None]" "Error ''NotReadableError''"]
    zipGetData_unwraps [of ?e2 None None "[GetData None None]" _
       "ProgressEvent ''abort'' (Some (EventTarget (Error ''NotReadableError'')))"]
    zipGetData_unwraps [of ?e3 None None "[GetData None None]" _ "ProgressEvent ''error'' None"]
    zipGetData_unwraps [of example_entry None None "[]" _ TypeError]
    zipGetData_unwraps [of deflated_entry None None "[GetData None None]" _ _ "[0x01, 0x02, 0x03, 0x04]"]
    zipGetData_unwraps [of failing_entry None None "[GetData None None]" Undefined]
  show ?thesis using c1 c2 c3 c4 c5 c6 by simp
qed

text \<open>
  The claim as it was stated fails for an error event whose target carries no error: it
  is a caught value other than an event with an inner error, and \<open>zipGetData\<close> throws
  \<open>undefined\<close> in its place.
\<close>

theorem event_without_error_counterexample:
  "call_getData failing_entry None None = ([GetData None None], Inl event_without_error)
   \<and> zipGetData failing_entry None None = ([GetData None None], Inl Undefined)
   \<and> event_without_error \<noteq> Undefined"
  by (simp add: zipGetData_def call_getData_def failing_entry_def failing_getData_def
      event_without_error_def)

text \<open>
  Claim C9. A read on an accessor that \<open>init\<close> has not completed on throws a TypeError,
  the failure of calling a method of \<open>undefined\<close>; it does not return data.
\<close>

theorem read_before_init:
  "readUint8Array (new_BlobEntryReader blob entry mimeString opts) index len
     = ([], Inl TypeError)"
  by (simp add: readUint8Array_def new_BlobEntryReader_def)

section \<open>Properties of runWithTimeout\<close>

lemma rt_step_after_timeout:
  assumes "timedOut s" and "\<not> tid_pending s"
  shows "timedOut (rt_step T s ev) \<and> \<not> tid_pending (rt_step T s ev)
     \<and> settle_calls (rt_step T s ev) = settle_calls s"
  using assms
  by (auto simp: rt_step_def finally_handler_def then_handler_def catch_handler_def
      split: rt_event.splits sum.splits)

lemma rt_run_after_timeout:
  assumes "timedOut s" and "\<not> tid_pending s"
  shows "timedOut (foldl (rt_step T) s evs) \<and> \<not> tid_pending (foldl (rt_step T) s evs)
     \<and> settle_calls (foldl (rt_step T) s evs) = settle_calls s"
  using assms
proof (induction evs arbitrary: s)
  case Nil
  then show ?case by simp
next
  case (Cons ev evs)
  from rt_step_after_timeout [OF Cons.prems, of T ev] Cons.IH [of "rt_step T s ev"]
  show ?case by simp
qed

lemma rt_step_after_settle:
  assumes "\<not> promise_pending s" and "\<not> tid_pending s"
  shows "rt_step T s ev = s"
  using assms by (simp add: rt_step_def split: rt_event.splits)

lemma rt_run_after_settle:
  assumes "\<not> promise_pending s" and "\<not> tid_pending s"
  shows "foldl (rt_step T) s evs = s"
  using assms by (induction evs) (simp_all add: rt_step_after_settle)

lemma rt_settles_first:
  "runWithTimeout T (PromiseSettles outcome # evs) =
     \<lparr> timedOut = False, tid_pending = False, promise_pending = False,
       settle_calls = [outcome] \<rparr>"
proof -
  have "rt_step T rt_start (PromiseSettles outcome) =
     \<lparr> timedOut = False, tid_pending = False, promise_pending = False,
       settle_calls = [outcome] \<rparr>"
    by (cases outcome)
      (simp_all add: rt_step_def rt_start_def finally_handler_def then_handler_def
        catch_handler_def)
  then show ?thesis
    by (simp add: runWithTimeout_def rt_run_after_settle)
qed

lemma rt_timer_first:
  "timedOut (runWithTimeout T (TimerFires # evs))
   \<and> settle_calls (runWithTimeout T (TimerFires # evs)) = [Inl (TimeoutError T)]"
proof -
  let ?s = "rt_step T rt_start TimerFires"
  have s: "timedOut ?s" "\<not> tid_pending ?s" "settle_calls ?s = [Inl (TimeoutError T)]"
    by (simp_all add: rt_step_def rt_start_def timeout_callback_def)
  from rt_run_after_timeout [OF s(1,2), of T evs] s(3)
  show ?thesis by (simp add: runWithTimeout_def)
qed

text \<open>
  Claim C6. Under every schedule at most one outcome is passed to the returned promise.
  If the wrapped promise settles before the timer fires, its outcome (value or error) is
  the one passed on, the timer is cleared, and the timeout callback never runs. If the
  timer fires first, the returned promise is rejected with the \<open>TimeoutError\<close> that
  carries the timeout, and the later outcome of the wrapped promise is not passed on.
\<close>

theorem runWithTimeout_one_outcome:
  "length (settle_calls (runWithTimeout T schedule)) \<le> 1
   \<and> settle_calls (runWithTimeout T (PromiseSettles outcome # schedule)) = [outcome]
   \<and> returned_promise (runWithTimeout T (PromiseSettles outcome # schedule)) = Some outcome
   \<and> \<not> tid_pending (runWithTimeout T (PromiseSettles outcome # schedule))
   \<and> \<not> timedOut (runWithTimeout T (PromiseSettles outcome # schedule))
   \<and> settle_calls (runWithTimeout T (TimerFires # schedule)) = [Inl (TimeoutError T)]
   \<and> returned_promise (runWithTimeout T (TimerFires # schedule)) = Some (Inl (TimeoutError T))
   \<and> timedOut (runWithTimeout T (TimerFires # schedule))"
proof -
  have "length (settle_calls (runWithTimeout T schedule)) \<le> 1"
  proof (cases schedule)
    case Nil
    then show ?thesis by (simp add: runWithTimeout_def rt_start_def)
  next
    case (Cons ev evs)
    then show ?thesis
      using rt_settles_first [of T _ evs] rt_timer_first [of T evs]
      by (cases ev) simp_all
  qed
  then show ?thesis
    using rt_settles_first [of T outcome schedule] rt_timer_first [of T schedule]
    by (simp add: returned_promise_def)
qed

lemma runWithTimeout_examples:
  "runWithTimeout 5000 [PromiseSettles (Inr (7::nat)), TimerFires] =
     \<lparr> timedOut = False, tid_pending = False, promise_pending = False,
       settle_calls = [Inr 7] \<rparr>"
  "runWithTimeout 5000 [TimerFires, PromiseSettles (Inr (7::nat))] =
     \<lparr> timedOut = True, tid_pending = False, promise_pending = False,
       settle_calls = [Inl (TimeoutError 5000)] \<rparr>"
  by (simp_all add: runWithTimeout_def rt_step_def rt_start_def finally_handler_def
      then_handler_def catch_handler_def timeout_callback_def)

section \<open>Properties of runWithTimedProgress\<close>

lemma frame_times_snoc:
  "frame_times (evs @ [ev]) = frame_times evs @ (case ev of Frame t \<Rightarrow> [t] | WorkSettles x \<Rightarrow> [])"
  by (induction evs rule: frame_times.induct) (auto split: tp_event.splits)

lemma is_fulfilled_iff: "is_fulfilled w \<longleftrightarrow> (\<exists>v. w = Some (Inr v))"
  by (cases w rule: is_fulfilled.cases) simp_all

lemma tp_inv_alt:
  "tp_inv t0 t1 d ts s \<longleftrightarrow>
     reported s = Lit0 # map (\<lambda>t. Ratio (t - t0) d) (t1 # ts)
                    @ (if phase s = Returned then [Lit1] else [])
   \<and> tp_now s = last (t1 # ts)
   \<and> (case phase s of
        AwaitRace \<Rightarrow> \<not> progress_done s \<and> work_state s = None \<and> \<not> tp_stop s
      | AwaitProgress \<Rightarrow>
          \<not> progress_done s \<and> (\<exists>v. work_state s = Some (Inr v)) \<and> tp_stop s
      | AwaitWork \<Rightarrow> progress_done s \<and> work_state s = None
      | Returned \<Rightarrow> progress_done s \<and> (\<exists>v. work_state s = Some (Inr v))
      | Threw e \<Rightarrow> work_state s = Some (Inl e))"
  by (cases "phase s") (simp_all add: tp_inv_def is_fulfilled_iff)

lemma tp_inv_start: "tp_inv t0 t1 d [] (tp_start t0 t1 d)"
  by (simp add: tp_inv_alt tp_start_def)

lemma tp_inv_work:
  assumes "tp_inv t0 t1 d ts s"
  shows "tp_inv t0 t1 d ts (tp_step t0 d s (WorkSettles outcome))"
  using assms
  by (cases "phase s"; cases outcome)
     (auto simp: tp_inv_alt tp_step_def resume_main_def await_race_def await_progress_def
        await_work_def split: option.splits sum.splits)

lemma tp_inv_frame:
  assumes "tp_inv t0 t1 d ts s"
  shows "tp_inv t0 t1 d ts (tp_step t0 d s (Frame t))
       \<or> tp_inv t0 t1 d (ts @ [t]) (tp_step t0 d s (Frame t))"
  using assms
  by (cases "phase s")
     (auto simp: tp_inv_alt tp_step_def resume_main_def await_race_def await_progress_def
        await_work_def loop_resume_def Let_def split: option.splits sum.splits)

lemma tp_inv_run:
  "\<exists>ts. subseq ts (frame_times evs) \<and> tp_inv t0 t1 d ts (runWithTimedProgress t0 t1 d evs)"
proof (induction evs rule: rev_induct)
  case Nil
  then show ?case
    using tp_inv_start [of t0 t1 d] by (auto simp: runWithTimedProgress_def)
next
  case (snoc ev evs)
  then obtain ts where ts: "subseq ts (frame_times evs)"
    and inv: "tp_inv t0 t1 d ts (runWithTimedProgress t0 t1 d evs)" by blast
  have run: "tp_step t0 d (runWithTimedProgress t0 t1 d evs) ev
               = runWithTimedProgress t0 t1 d (evs @ [ev])"
    by (simp add: runWithTimedProgress_def)
  show ?case
  proof (cases ev)
    case (Frame t)
    have ft: "frame_times (evs @ [ev]) = frame_times evs @ [t]"
      by (simp add: frame_times_snoc Frame)
    have a: "subseq ts (frame_times (evs @ [ev]))"
      unfolding ft using ts by (rule subseq_rev_drop_many)
    have b: "subseq (ts @ [t]) (frame_times (evs @ [ev]))"
      unfolding ft using ts by (rule list_emb_append_mono) simp
    from tp_inv_frame [OF inv, of t]
    have "tp_inv t0 t1 d ts (runWithTimedProgress t0 t1 d (evs @ [ev]))
        \<or> tp_inv t0 t1 d (ts @ [t]) (runWithTimedProgress t0 t1 d (evs @ [ev]))"
      unfolding Frame [symmetric] run .
    then show ?thesis
    proof
      assume "tp_inv t0 t1 d ts (runWithTimedProgress t0 t1 d (evs @ [ev]))"
      with a show ?thesis by (intro exI [of _ ts] conjI)
    next
      assume "tp_inv t0 t1 d (ts @ [t]) (runWithTimedProgress t0 t1 d (evs @ [ev]))"
      with b show ?thesis by (intro exI [of _ "ts @ [t]"] conjI)
    qed
  next
    case (WorkSettles outcome)
    have a: "subseq ts (frame_times (evs @ [ev]))"
      using ts by (simp add: frame_times_snoc WorkSettles)
    from tp_inv_work [OF inv, of outcome]
    have "tp_inv t0 t1 d ts (runWithTimedProgress t0 t1 d (evs @ [ev]))"
      unfolding WorkSettles [symmetric] run .
    with a show ?thesis by (intro exI [of _ ts] conjI)
  qed
qed

lemma subseq_sorted:
  assumes "subseq xs ys" and "sorted ys"
  shows "sorted (xs :: int list)"
proof -
  from assms(1) obtain N where "xs = nths ys N" by (auto simp: subseq_conv_nths)
  with assms(2) show ?thesis by (simp add: sorted_nths)
qed

lemma synthetic_reports:
  "filter is_synthetic (Lit0 # map (\<lambda>t. Ratio (t - t0) d) us @ (if b then [Lit1] else []))
     = map (\<lambda>t. Ratio (t - t0) d) us"
  by (induction us) auto

lemma ratio_values:
  assumes "0 < d"
  shows "map fraction_value (map (\<lambda>t. Ratio (t - t0) d) us)
     = map Some (map (\<lambda>t. of_int (t - t0) / of_int d) us)"
  using assms by (induction us) auto

lemma ratio_sorted:
  assumes "0 < d" and "sorted (t0 # us)"
  shows "sorted (map (\<lambda>t. (of_int (t - t0) / of_int d) :: rat) us)
     \<and> (\<forall>q \<in> set (map (\<lambda>t. (of_int (t - t0) / of_int d) :: rat) us). 0 \<le> q)"
  using assms(2)
proof (induction us)
  case Nil
  then show ?case by simp
next
  case (Cons u us)
  have d: "(0 :: rat) \<le> of_int d" using assms(1) by simp
  have mono: "(of_int (a - t0) / of_int d :: rat) \<le> of_int (b - t0) / of_int d"
    if "a \<le> b" for a b
  proof -
    have "(of_int (a - t0) :: rat) \<le> of_int (b - t0)" using that by simp
    then show ?thesis using d by (rule divide_right_mono)
  qed
  have u: "t0 \<le> u" and us: "\<forall>t \<in> set us. u \<le> t" and rest: "sorted (t0 # us)"
    using Cons.prems by auto
  have "(0 :: rat) \<le> of_int (u - t0) / of_int d"
    using mono [OF u] by simp
  moreover have "\<forall>t \<in> set us. (of_int (u - t0) / of_int d :: rat) \<le> of_int (t - t0) / of_int d"
    using us mono by blast
  ultimately show ?case using Cons.IH [OF rest] by simp
qed

lemma tp_inv_reported:
  assumes "tp_inv t0 t1 d ts s"
  shows "reported s = Lit0 # map (\<lambda>t. Ratio (t - t0) d) (t1 # ts)
                    @ (if phase s = Returned then [Lit1] else [])"
  using assms by (simp add: tp_inv_alt)

lemma tp_inv_returned:
  assumes "tp_inv t0 t1 d ts s"
  shows "phase s = Returned \<longleftrightarrow> progress_done s \<and> (\<exists>v. work_state s = Some (Inr v))"
  using assms by (cases "phase s") (auto simp: tp_inv_alt)

lemma tp_inv_Lit1:
  assumes "tp_inv t0 t1 d ts s"
  shows "Lit1 \<in> set (reported s) \<longleftrightarrow> phase s = Returned"
  unfolding tp_inv_reported [OF assms] by auto

lemma tp_inv_last:
  assumes "tp_inv t0 t1 d ts s"
  shows "phase s = Returned \<longrightarrow> last (reported s) = Lit1"
  unfolding tp_inv_reported [OF assms] by simp

lemma tp_inv_rejected:
  assumes "tp_inv t0 t1 d ts s"
  shows "\<forall>e. work_state s = Some (Inl e) \<longrightarrow> phase s = Threw e \<and> Lit1 \<notin> set (reported s)"
  unfolding tp_inv_Lit1 [OF assms] using assms by (cases "phase s") (auto simp: tp_inv_alt)

lemma tp_inv_sorted:
  assumes "tp_inv t0 t1 d ts s" and "subseq ts us"
  shows "0 < d \<and> sorted (t0 # t1 # us) \<longrightarrow>
        (\<exists>qs. map fraction_value (filter is_synthetic (reported s)) = map Some qs
             \<and> sorted qs \<and> (\<forall>q \<in> set qs. 0 \<le> q))"
proof
  assume h: "0 < d \<and> sorted (t0 # t1 # us)"
  have "subseq (t0 # t1 # ts) (t0 # t1 # us)"
    using assms(2) by simp
  then have srt: "sorted (t0 # t1 # ts)"
    using h by (rule subseq_sorted [OF _ conjunct2])
  have "map fraction_value (filter is_synthetic (reported s))
        = map Some (map (\<lambda>t. of_int (t - t0) / of_int d) (t1 # ts))"
    unfolding tp_inv_reported [OF assms(1)] synthetic_reports
    using h by (intro ratio_values) simp
  moreover note ratio_sorted [OF conjunct1 [OF h] srt]
  ultimately show "\<exists>qs. map fraction_value (filter is_synthetic (reported s)) = map Some qs
             \<and> sorted qs \<and> (\<forall>q \<in> set qs. 0 \<le> q)"
    by blast
qed

lemma tp_inv_frame_after_fulfil:
  assumes "tp_inv t0 t1 d ts s" and "work_state s = Some (Inr v)"
  shows "phase (tp_step t0 d s (Frame t)) = Returned"
  using assms
  by (cases "phase s")
     (auto simp: tp_inv_alt tp_step_def resume_main_def await_race_def await_progress_def
        await_work_def loop_resume_def Let_def)

lemma tp_inv_fulfil_after_loop:
  assumes "tp_inv t0 t1 d ts s" and "progress_done s" and "work_state s = None"
  shows "phase (tp_step t0 d s (WorkSettles (Inr v))) = Returned"
  using assms
  by (cases "phase s")
     (auto simp: tp_inv_alt tp_step_def resume_main_def await_race_def await_progress_def
        await_work_def)

lemma tp_inv_frame_after_target:
  assumes "tp_inv t0 t1 d ts s" and "t0 + d \<le> tp_now s"
  shows "progress_done (tp_step t0 d s (Frame t))"
  using assms
  by (cases "phase s")
     (auto simp: tp_inv_alt tp_step_def resume_main_def await_race_def await_progress_def
        await_work_def loop_resume_def Let_def split: option.splits sum.splits)

text \<open>What one frame does to the reports, and what the settling of the work does.\<close>

lemma tp_frame_tick:
  assumes "tp_inv t0 t1 d ts s"
    and "\<not> progress_done s" and "\<not> tp_stop s" and "tp_now s < t0 + d"
  shows "reported (tp_step t0 d s (Frame t)) = reported s @ [Ratio (t - t0) d]
     \<and> tp_now (tp_step t0 d s (Frame t)) = t
     \<and> \<not> progress_done (tp_step t0 d s (Frame t))"
  using assms
  by (cases "phase s")
     (auto simp: tp_inv_alt tp_step_def resume_main_def await_race_def await_progress_def
        await_work_def loop_resume_def Let_def)

lemma tp_frame_ends:
  assumes "tp_inv t0 t1 d ts s" and "tp_stop s \<or> t0 + d \<le> tp_now s"
  shows "progress_done (tp_step t0 d s (Frame t))
     \<and> filter is_synthetic (reported (tp_step t0 d s (Frame t)))
         = filter is_synthetic (reported s)"
  using assms
  by (cases "phase s")
     (auto simp: tp_inv_alt tp_step_def resume_main_def await_race_def await_progress_def
        await_work_def loop_resume_def Let_def split: option.splits sum.splits)

lemma tp_frame_cases:
  assumes "tp_inv t0 t1 d ts s"
  shows "(\<not> progress_done (tp_step t0 d s (Frame t)) \<longrightarrow>
            reported (tp_step t0 d s (Frame t)) = reported s @ [Ratio (t - t0) d])
     \<and> (progress_done (tp_step t0 d s (Frame t)) \<longrightarrow>
            filter is_synthetic (reported (tp_step t0 d s (Frame t)))
              = filter is_synthetic (reported s))"
proof (cases "progress_done s")
  case True
  then show ?thesis by (simp add: tp_step_def)
next
  case False
  show ?thesis
  proof (cases "tp_stop s \<or> t0 + d \<le> tp_now s")
    case True
    from tp_frame_ends [OF assms True, of t] show ?thesis by simp
  next
    case False
    with \<open>\<not> progress_done s\<close> tp_frame_tick [OF assms, of t] show ?thesis by simp
  qed
qed

lemma tp_work_no_tick:
  assumes "tp_inv t0 t1 d ts s"
  shows "filter is_synthetic (reported (tp_step t0 d s (WorkSettles outcome)))
           = filter is_synthetic (reported s)"
  using assms
  by (cases "phase s"; cases outcome)
     (auto simp: tp_inv_alt tp_step_def resume_main_def await_race_def await_progress_def
        await_work_def split: option.splits sum.splits)

lemma tp_inv_last_tick:
  assumes "tp_inv t0 t1 d ts s"
  shows "last (filter is_synthetic (reported s)) = Ratio (tp_now s - t0) d"
proof -
  have "filter is_synthetic (reported s) = map (\<lambda>t. Ratio (t - t0) d) (t1 # ts)"
    unfolding tp_inv_reported [OF assms] by (rule synthetic_reports)
  moreover have "tp_now s = last (t1 # ts)"
    using assms by (simp add: tp_inv_alt)
  ultimately show ?thesis by (simp add: last_map)
qed

lemma runWithTimedProgress_snoc:
  "runWithTimedProgress t0 t1 d (evs @ [ev]) = tp_step t0 d (runWithTimedProgress t0 t1 d evs) ev"
  by (simp add: runWithTimedProgress_def)

text \<open>
  Claim C7, as amended. The first reported fraction is \<open>0.0\<close>, followed at once by the
  fraction of the first clock reading. Each frame on which the loop goes on (it has not
  been stopped and its last reading is before the target time) reports
  \<open>(t - startTime) / duration\<close> for the reading \<open>t\<close> of that frame, and nothing else adds a
  synthetic report: not the frame that ends the loop, and not the settling of the work.
  So the synthetic fractions are those of clock readings taken in order, and they do not
  decrease when the clock does not go back and the duration is positive.
  \<open>1.0\<close> is reported exactly when the loop has ended and the real operation has been
  fulfilled, whichever came first, and it is then the last report; a frame after the
  fulfilment, or the fulfilment after the end of the loop, brings it about. When the real
  operation is rejected the function throws that error and \<open>1.0\<close> is not reported.
\<close>

theorem runWithTimedProgress_reports:
  "(\<exists>ts. subseq ts (frame_times schedule)
       \<and> reported (runWithTimedProgress startTime now duration schedule) =
           Lit0 # map (\<lambda>t. Ratio (t - startTime) duration) (now # ts)
             @ (if phase (runWithTimedProgress startTime now duration schedule) = Returned
                then [Lit1] else []))
   \<and> (phase (runWithTimedProgress startTime now duration schedule) = Returned \<longleftrightarrow>
        progress_done (runWithTimedProgress startTime now duration schedule)
        \<and> (\<exists>v. work_state (runWithTimedProgress startTime now duration schedule)
                  = Some (Inr v)))
   \<and> (Lit1 \<in> set (reported (runWithTimedProgress startTime now duration schedule)) \<longleftrightarrow>
        phase (runWithTimedProgress startTime now duration schedule) = Returned)
   \<and> (phase (runWithTimedProgress startTime now duration schedule) = Returned \<longrightarrow>
        last (reported (runWithTimedProgress startTime now duration schedule)) = Lit1)
   \<and> (\<forall>e. work_state (runWithTimedProgress startTime now duration schedule) = Some (Inl e)
        \<longrightarrow> phase (runWithTimedProgress startTime now duration schedule) = Threw e
          \<and> Lit1 \<notin> set (reported (runWithTimedProgress startTime now duration schedule)))
   \<and> (0 < duration \<and> sorted (startTime # now # frame_times schedule) \<longrightarrow>
        (\<exists>qs. map fraction_value
                 (filter is_synthetic
                    (reported (runWithTimedProgress startTime now duration schedule)))
               = map Some qs
             \<and> sorted qs \<and> (\<forall>q \<in> set qs. 0 \<le> q)))
   \<and> (\<forall>v t. work_state (runWithTimedProgress startTime now duration schedule)
                = Some (Inr v) \<longrightarrow>
        phase (runWithTimedProgress startTime now duration (schedule @ [Frame t]))
          = Returned)
   \<and> (\<forall>v. progress_done (runWithTimedProgress startTime now duration schedule)
            \<and> work_state (runWithTimedProgress startTime now duration schedule) = None
        \<longrightarrow>
        phase (runWithTimedProgress startTime now duration (schedule @ [WorkSettles (Inr v)]))
          = Returned)
   \<and> (\<forall>t. \<not> progress_done (runWithTimedProgress startTime now duration schedule)
            \<and> \<not> tp_stop (runWithTimedProgress startTime now duration schedule)
            \<and> tp_now (runWithTimedProgress startTime now duration schedule)
                < startTime + duration
        \<longrightarrow>
        reported (runWithTimedProgress startTime now duration (schedule @ [Frame t]))
          = reported (runWithTimedProgress startTime now duration schedule)
              @ [Ratio (t - startTime) duration]
        \<and> tp_now (runWithTimedProgress startTime now duration (schedule @ [Frame t])) = t
        \<and> \<not> progress_done
              (runWithTimedProgress startTime now duration (schedule @ [Frame t])))
   \<and> (\<forall>t. (\<not> progress_done
               (runWithTimedProgress startTime now duration (schedule @ [Frame t]))
             \<longrightarrow>
             reported (runWithTimedProgress startTime now duration (schedule @ [Frame t]))
               = reported (runWithTimedProgress startTime now duration schedule)
                   @ [Ratio (t - startTime) duration])
          \<and> (progress_done
               (runWithTimedProgress startTime now duration (schedule @ [Frame t]))
             \<longrightarrow>
             filter is_synthetic
               (reported (runWithTimedProgress startTime now duration (schedule @ [Frame t])))
               = filter is_synthetic
                   (reported (runWithTimedProgress startTime now duration schedule))))
   \<and> (\<forall>t. tp_stop (runWithTimedProgress startTime now duration schedule)
            \<or> startTime + duration
                \<le> tp_now (runWithTimedProgress startTime now duration schedule)
        \<longrightarrow>
        progress_done (runWithTimedProgress startTime now duration (schedule @ [Frame t])))
   \<and> (\<forall>outcome.
        filter is_synthetic
          (reported
             (runWithTimedProgress startTime now duration (schedule @ [WorkSettles outcome])))
          = filter is_synthetic
              (reported (runWithTimedProgress startTime now duration schedule)))
   \<and> last (filter is_synthetic
              (reported (runWithTimedProgress startTime now duration schedule)))
       = Ratio (tp_now (runWithTimedProgress startTime now duration schedule) - startTime)
           duration"
proof -
  obtain ts where sub: "subseq ts (frame_times schedule)"
    and inv: "tp_inv startTime now duration ts
                (runWithTimedProgress startTime now duration schedule)"
    using tp_inv_run [of schedule startTime now duration] by (elim exE conjE)
  have c1: "\<exists>ts. subseq ts (frame_times schedule)
       \<and> reported (runWithTimedProgress startTime now duration schedule) =
           Lit0 # map (\<lambda>t. Ratio (t - startTime) duration) (now # ts)
             @ (if phase (runWithTimedProgress startTime now duration schedule) = Returned
                then [Lit1] else [])"
    using sub tp_inv_reported [OF inv] by (intro exI [of _ ts] conjI)
  have c7: "\<forall>v t. work_state (runWithTimedProgress startTime now duration schedule)
                = Some (Inr v) \<longrightarrow>
        phase (runWithTimedProgress startTime now duration (schedule @ [Frame t]))
          = Returned"
    unfolding runWithTimedProgress_snoc
    by (intro allI impI) (rule tp_inv_frame_after_fulfil [OF inv])
  have c8: "\<forall>v. progress_done (runWithTimedProgress startTime now duration schedule)
            \<and> work_state (runWithTimedProgress startTime now duration schedule) = None
        \<longrightarrow>
        phase (runWithTimedProgress startTime now duration (schedule @ [WorkSettles (Inr v)]))
          = Returned"
    unfolding runWithTimedProgress_snoc
    by (intro allI impI, elim conjE) (rule tp_inv_fulfil_after_loop [OF inv])
  have c9: "\<forall>t. \<not> progress_done (runWithTimedProgress startTime now duration schedule)
            \<and> \<not> tp_stop (runWithTimedProgress startTime now duration schedule)
            \<and> tp_now (runWithTimedProgress startTime now duration schedule)
                < startTime + duration
        \<longrightarrow>
        reported (runWithTimedProgress startTime now duration (schedule @ [Frame t]))
          = reported (runWithTimedProgress startTime now duration schedule)
              @ [Ratio (t - startTime) duration]
        \<and> tp_now (runWithTimedProgress startTime now duration (schedule @ [Frame t])) = t
        \<and> \<not> progress_done
              (runWithTimedProgress startTime now duration (schedule @ [Frame t]))"
    unfolding runWithTimedProgress_snoc
    by (intro allI impI, elim conjE) (rule tp_frame_tick [OF inv])
  have c10: "\<forall>t. (\<not> progress_done
               (runWithTimedProgress startTime now duration (schedule @ [Frame t]))
             \<longrightarrow>
             reported (runWithTimedProgress startTime now duration (schedule @ [Frame t]))
               = reported (runWithTimedProgress startTime now duration schedule)
                   @ [Ratio (t - startTime) duration])
          \<and> (progress_done
               (runWithTimedProgress startTime now duration (schedule @ [Frame t]))
             \<longrightarrow>
             filter is_synthetic
               (reported (runWithTimedProgress startTime now duration (schedule @ [Frame t])))
               = filter is_synthetic
                   (reported (runWithTimedProgress startTime now duration schedule)))"
    unfolding runWithTimedProgress_snoc
    by (intro allI) (rule tp_frame_cases [OF inv])
  have c11: "\<forall>t. tp_stop (runWithTimedProgress startTime now duration schedule)
            \<or> startTime + duration
                \<le> tp_now (runWithTimedProgress startTime now duration schedule)
        \<longrightarrow>
        progress_done (runWithTimedProgress startTime now duration (schedule @ [Frame t]))"
    unfolding runWithTimedProgress_snoc
    by (intro allI impI) (rule conjunct1 [OF tp_frame_ends [OF inv]])
  have c12: "\<forall>outcome.
        filter is_synthetic
          (reported
             (runWithTimedProgress startTime now duration (schedule @ [WorkSettles outcome])))
          = filter is_synthetic
              (reported (runWithTimedProgress startTime now duration schedule))"
    unfolding runWithTimedProgress_snoc
    by (intro allI) (rule tp_work_no_tick [OF inv])
  show ?thesis
    by (intro conjI c1 tp_inv_returned [OF inv] tp_inv_Lit1 [OF inv] tp_inv_last [OF inv]
        tp_inv_rejected [OF inv] tp_inv_sorted [OF inv sub] c7 c8 c9 c10 c11 c12
        tp_inv_last_tick [OF inv])
qed

lemmas tp_defs =
  runWithTimedProgress_def tp_start_def tp_step_def resume_main_def await_race_def
  await_progress_def await_work_def loop_resume_def Let_def

theorem runWithTimedProgress_reports_witness:
  "0 < (100 :: int)
   \<and> sorted (0 # 0 # frame_times [Frame 16, WorkSettles (Inr (7 :: nat)), Frame 32])
   \<and> work_state (runWithTimedProgress 0 0 100 [Frame 16, WorkSettles (Inr (7 :: nat))]) = Some (Inr 7)
   \<and> phase (runWithTimedProgress 0 0 100 ([Frame 16, WorkSettles (Inr (7 :: nat))] @ [Frame 32])) = Returned
   \<and> last (reported (runWithTimedProgress 0 0 100 ([Frame 16, WorkSettles (Inr (7 :: nat))] @ [Frame 32]))) = Lit1
   \<and> (\<exists>qs. map fraction_value
              (filter is_synthetic (reported (runWithTimedProgress 0 0 100 [Frame 16, WorkSettles (Inr (7 :: nat)), Frame 32])))
            = map Some qs
          \<and> sorted qs \<and> (\<forall>q \<in> set qs. 0 \<le> q))
   \<and> progress_done (runWithTimedProgress 0 0 100 [Frame 50, Frame 120, Frame 130 :: nat tp_event])
   \<and> work_state (runWithTimedProgress 0 0 100 [Frame 50, Frame 120, Frame 130 :: nat tp_event]) = None
   \<and> phase (runWithTimedProgress 0 0 100 ([Frame 50, Frame 120, Frame 130 :: nat tp_event] @ [WorkSettles (Inr 7)])) = Returned
   \<and> work_state (runWithTimedProgress 0 0 100 [WorkSettles (Inl (Error ''usb'')) :: nat tp_event]) = Some (Inl (Error ''usb''))
   \<and> phase (runWithTimedProgress 0 0 100 [WorkSettles (Inl (Error ''usb'')) :: nat tp_event]) = Threw (Error ''usb'')
   \<and> Lit1 \<notin> set (reported (runWithTimedProgress 0 0 100 [WorkSettles (Inl (Error ''usb'')) :: nat tp_event]))
   \<and> \<not> progress_done (runWithTimedProgress 0 0 100 [Frame 16 :: nat tp_event])
   \<and> \<not> tp_stop (runWithTimedProgress 0 0 100 [Frame 16 :: nat tp_event])
   \<and> tp_now (runWithTimedProgress 0 0 100 [Frame 16 :: nat tp_event]) < 0 + 100
   \<and> reported (runWithTimedProgress 0 0 100 ([Frame 16 :: nat tp_event] @ [Frame 32]))
       = reported (runWithTimedProgress 0 0 100 [Frame 16 :: nat tp_event]) @ [Ratio (32 - 0) 100]
   \<and> reported (runWithTimedProgress 0 0 100 ([Frame 16 :: nat tp_event] @ [Frame 32]))
       = [Lit0, Ratio 0 100, Ratio 16 100, Ratio 32 100]
   \<and> 0 + 100 \<le> tp_now (runWithTimedProgress 0 0 100 [Frame 50, Frame 120 :: nat tp_event])
   \<and> progress_done (runWithTimedProgress 0 0 100 ([Frame 50, Frame 120 :: nat tp_event] @ [Frame 130]))
   \<and> filter is_synthetic (reported (runWithTimedProgress 0 0 100 ([Frame 50, Frame 120 :: nat tp_event] @ [Frame 130])))
       = filter is_synthetic (reported (runWithTimedProgress 0 0 100 [Frame 50, Frame 120 :: nat tp_event]))"
proof -
  note rP1 = runWithTimedProgress_reports
    [where schedule = "[Frame 16, WorkSettles (Inr (7 :: nat))]"
       and startTime = 0 and now = 0 and duration = 100]
  note rS1 = runWithTimedProgress_reports
    [where schedule = "[Frame 16, WorkSettles (Inr (7 :: nat))] @ [Frame 32]"
       and startTime = 0 and now = 0 and duration = 100]
  note rS2 = runWithTimedProgress_reports
    [where schedule = "[Frame 50, Frame 120, Frame 130 :: nat tp_event]"
       and startTime = 0 and now = 0 and duration = 100]
  note rS3 = runWithTimedProgress_reports
    [where schedule = "[WorkSettles (Inl (Error ''usb'')) :: nat tp_event]"
       and startTime = 0 and now = 0 and duration = 100]
  note rT1 = runWithTimedProgress_reports
    [where schedule = "[Frame 16 :: nat tp_event]"
       and startTime = 0 and now = 0 and duration = 100]
  note rP2 = runWithTimedProgress_reports
    [where schedule = "[Frame 50, Frame 120 :: nat tp_event]"
       and startTime = 0 and now = 0 and duration = 100]
  have d: "0 < (100 :: int)" by simp
  have srt: "sorted (0 # 0 # frame_times [Frame 16, WorkSettles (Inr (7 :: nat)), Frame 32])"
    by simp
  have w: "work_state (runWithTimedProgress 0 0 100 [Frame 16, WorkSettles (Inr (7 :: nat))]) = Some (Inr 7)"
    by (simp add: tp_defs)
  have p: "phase (runWithTimedProgress 0 0 100 ([Frame 16, WorkSettles (Inr (7 :: nat))] @ [Frame 32])) = Returned"
    by (rule rP1 [THEN conjunct2, THEN conjunct2, THEN conjunct2, THEN conjunct2,
          THEN conjunct2, THEN conjunct2, THEN conjunct1, THEN spec, THEN spec,
          THEN mp, OF w])
  have l: "last (reported (runWithTimedProgress 0 0 100 ([Frame 16, WorkSettles (Inr (7 :: nat))] @ [Frame 32]))) = Lit1"
    by (rule rS1 [THEN conjunct2, THEN conjunct2, THEN conjunct2, THEN conjunct1,
          THEN mp, OF p])
  have q: "\<exists>qs. map fraction_value
              (filter is_synthetic (reported (runWithTimedProgress 0 0 100 [Frame 16, WorkSettles (Inr (7 :: nat)), Frame 32])))
            = map Some qs
          \<and> sorted qs \<and> (\<forall>q \<in> set qs. 0 \<le> q)"
    using rS1 [THEN conjunct2, THEN conjunct2, THEN conjunct2, THEN conjunct2,
          THEN conjunct2, THEN conjunct1, THEN mp, OF conjI [OF d]] by simp
  have a1: "progress_done (runWithTimedProgress 0 0 100 [Frame 50, Frame 120, Frame 130 :: nat tp_event])"
    and a2: "work_state (runWithTimedProgress 0 0 100 [Frame 50, Frame 120, Frame 130 :: nat tp_event]) = None"
    by (simp_all add: tp_defs)
  have a3: "phase (runWithTimedProgress 0 0 100 ([Frame 50, Frame 120, Frame 130 :: nat tp_event] @ [WorkSettles (Inr 7)])) = Returned"
    by (rule rS2 [THEN conjunct2, THEN conjunct2, THEN conjunct2, THEN conjunct2,
          THEN conjunct2, THEN conjunct2, THEN conjunct2, THEN conjunct1,
          THEN spec, THEN mp, OF conjI [OF a1 a2]])
  have b1: "work_state (runWithTimedProgress 0 0 100 [WorkSettles (Inl (Error ''usb'')) :: nat tp_event]) = Some (Inl (Error ''usb''))"
    by (simp add: tp_defs)
  note b2 = rS3 [THEN conjunct2, THEN conjunct2, THEN conjunct2, THEN conjunct2,
          THEN conjunct1, THEN spec, THEN mp, OF b1]
  have t1: "\<not> progress_done (runWithTimedProgress 0 0 100 [Frame 16 :: nat tp_event])"
    and t2: "\<not> tp_stop (runWithTimedProgress 0 0 100 [Frame 16 :: nat tp_event])"
    and t3: "tp_now (runWithTimedProgress 0 0 100 [Frame 16 :: nat tp_event]) < 0 + 100"
    and t0: "reported (runWithTimedProgress 0 0 100 [Frame 16 :: nat tp_event]) = [Lit0, Ratio 0 100, Ratio 16 100]"
    by (simp_all add: tp_defs)
  have t4: "reported (runWithTimedProgress 0 0 100 ([Frame 16 :: nat tp_event] @ [Frame 32]))
       = reported (runWithTimedProgress 0 0 100 [Frame 16 :: nat tp_event]) @ [Ratio (32 - 0) 100]"
    by (rule rT1 [THEN conjunct2, THEN conjunct2, THEN conjunct2, THEN conjunct2,
          THEN conjunct2, THEN conjunct2, THEN conjunct2, THEN conjunct2,
          THEN conjunct1, THEN spec, THEN mp, OF conjI [OF t1 conjI [OF t2 t3]],
          THEN conjunct1])
  have t5: "reported (runWithTimedProgress 0 0 100 ([Frame 16 :: nat tp_event] @ [Frame 32]))
       = [Lit0, Ratio 0 100, Ratio 16 100, Ratio 32 100]"
    unfolding t4 t0 by simp
  have e1: "0 + 100 \<le> tp_now (runWithTimedProgress 0 0 100 [Frame 50, Frame 120 :: nat tp_event])"
    by (simp add: tp_defs)
  have e2: "progress_done (runWithTimedProgress 0 0 100 ([Frame 50, Frame 120 :: nat tp_event] @ [Frame 130]))"
    by (rule rP2 [THEN conjunct2, THEN conjunct2, THEN conjunct2, THEN conjunct2,
          THEN conjunct2, THEN conjunct2, THEN conjunct2, THEN conjunct2,
          THEN conjunct2, THEN conjunct2, THEN conjunct1, THEN spec, THEN mp,
          OF disjI2 [OF e1]])
  have e3: "filter is_synthetic (reported (runWithTimedProgress 0 0 100 ([Frame 50, Frame 120 :: nat tp_event] @ [Frame 130])))
       = filter is_synthetic (reported (runWithTimedProgress 0 0 100 [Frame 50, Frame 120 :: nat tp_event]))"
    by (rule rP2 [THEN conjunct2, THEN conjunct2, THEN conjunct2, THEN conjunct2,
          THEN conjunct2, THEN conjunct2, THEN conjunct2, THEN conjunct2,
          THEN conjunct2, THEN conjunct1, THEN spec, THEN conjunct2, THEN mp,
          OF e2])
  show ?thesis
    by (intro conjI d srt w p l q a1 a2 a3 b1 b2 [THEN conjunct1] b2 [THEN conjunct2]
        t1 t2 t3 t4 t5 e1 e2 e3)
qed

text \<open>
  The claim as it was stated fails for an operation that is rejected: here it is rejected
  before the estimated 100 ms have passed, the function throws, the loop runs to its end,
  and the last report is the fraction of the reading 120, not \<open>1.0\<close>.
\<close>

theorem work_rejects_counterexample:
  "reported (runWithTimedProgress 0 0 100
      [WorkSettles (Inl (Error ''usb'')) :: nat tp_event, Frame 50, Frame 120, Frame 130])
     = [Lit0, Ratio 0 100, Ratio 50 100, Ratio 120 100]
   \<and> phase (runWithTimedProgress 0 0 100
      [WorkSettles (Inl (Error ''usb'')) :: nat tp_event, Frame 50, Frame 120, Frame 130])
     = Threw (Error ''usb'')
   \<and> progress_done (runWithTimedProgress 0 0 100
      [WorkSettles (Inl (Error ''usb'')) :: nat tp_event, Frame 50, Frame 120, Frame 130])"
  by (simp add: runWithTimedProgress_def tp_start_def tp_step_def resume_main_def
      await_race_def await_progress_def await_work_def loop_resume_def Let_def)

end
